theory Spec2Isabelle
  imports Main "HOL-Library.AList"
begin

section \<open>Data model of server.js\<close>

text \<open>
  The session store of \<^verbatim>\<open>server.js\<close> is the object \<^verbatim>\<open>sessions\<close>, from session id to a
  session object; a session holds the object \<^verbatim>\<open>imagePaths\<close> from image id to file path.
  Both are association lists here (\<open>map_of\<close> reads, \<open>AList.update\<close> writes and keeps the
  insertion order that \<^verbatim>\<open>Object.keys\<close> and \<^verbatim>\<open>Object.values\<close> enumerate, \<open>AList.delete\<close>
  is \<^verbatim>\<open>delete obj[key]\<close>). The keys are the UUIDs and image ids that the handlers
  generate; what a JavaScript object inherits from its prototype is not part of the map.
  The upload directory is an association list from path to file contents. Timestamps
  (\<^verbatim>\<open>Date.now()\<close>) and durations are integers of milliseconds.

  A session object has an identity: the upload handler keeps a reference to the object it
  found in the store and writes to that object after its awaits, whether or not the store
  still holds it. \<open>objectId\<close> is that identity; the request handler numbers the objects
  it creates with \<open>nextObjectId\<close>. No handler reads or changes it.
\<close>

datatype status = waiting_for_sender | connected | sender_disconnected | receiver_disconnected

type_synonym buffer = "nat list"

record session =
  objectId :: nat
  status :: status
  receiverLastSeen :: int
  senderLastSeen :: int
  expiresAt :: int
  imagePaths :: "(string \<times> string) list"
  pendingImageIds :: "string list"
  qrUrl :: string
  qrData :: string
  createdAt :: int

text \<open>
  The configuration constants read from the environment at start-up. \<^verbatim>\<open>POLLING_INTERVAL_MS\<close>
  is the constant 2000 of the source.
\<close>

record config =
  SESSION_TIMEOUT_MS :: int
  CLIENT_TIMEOUT_MS :: int
  UPLOAD_DIR :: string

definition POLLING_INTERVAL_MS :: int where
  "POLLING_INTERVAL_MS = 2000"

section \<open>The file system calls\<close>

text \<open>
  The calls of \<^verbatim>\<open>fs-extra\<close> on the upload directory. \<^verbatim>\<open>fs.unlink\<close> fails with
  \<^verbatim>\<open>ENOENT\<close> on a path that names no file, and it can fail with any other error code
  (permissions, a busy file, the disk), which leaves the file where it is: \<open>fault\<close> says
  whether the call meets such a failure, and \<open>EOTHER\<close> stands for every code that is not
  \<^verbatim>\<open>ENOENT\<close>, the one code the handlers tell apart.
\<close>

datatype fs_error = ENOENT | EOTHER

definition unlink ::
  "bool \<Rightarrow> string \<Rightarrow> (string \<times> buffer) list \<Rightarrow> fs_error + (string \<times> buffer) list" where
  "unlink fault p fs =
     (if fault then Inl EOTHER
      else case map_of fs p of
             None \<Rightarrow> Inl ENOENT
           | Some b \<Rightarrow> Inr (AList.delete p fs))"

definition readFile :: "string \<Rightarrow> (string \<times> buffer) list \<Rightarrow> fs_error + buffer" where
  "readFile p fs = (case map_of fs p of
                      None \<Rightarrow> Inl ENOENT
                    | Some b \<Rightarrow> Inr b)"

definition writeFile :: "string \<Rightarrow> buffer \<Rightarrow> (string \<times> buffer) list \<Rightarrow> (string \<times> buffer) list" where
  "writeFile p b fs = AList.update p b fs"

text \<open>
  \<^verbatim>\<open>path.basename\<close> on a POSIX path: trailing slashes are dropped, then the part after
  the last slash is kept. \<^verbatim>\<open>path.join(UPLOAD_DIR, imageId)\<close> puts one slash between the two
  (\<^verbatim>\<open>UPLOAD_DIR\<close> taken as a normalised path without a trailing slash); the image id
  holds no slash, since it ends in a base name.
\<close>

definition basename :: "string \<Rightarrow> string" where
  "basename p = rev (takeWhile (\<lambda>c. c \<noteq> CHR ''/'') (dropWhile (\<lambda>c. c = CHR ''/'') (rev p)))"

definition path_join :: "string \<Rightarrow> string \<Rightarrow> string" where
  "path_join d f = d @ ''/'' @ f"

section \<open>Suspended work\<close>

text \<open>
  The handlers are \<^verbatim>\<open>async\<close> functions: at an \<^verbatim>\<open>await\<close> a handler hands control back to
  the event loop, other handlers run, and the handler goes on when the awaited call has
  returned. The server state holds, in \<open>deferred\<close>, what is suspended in this way:
  \<^item> \<open>CleanupFiles c imagePath rest\<close>: the loop of \<^verbatim>\<open>cleanupSession\<close>, suspended at
    \<^verbatim>\<open>await fs.unlink(imagePath)\<close>, with the paths \<open>rest\<close> still to come;
  \<^item> \<open>PostSendCleanup c sessionId imageId imagePath\<close>: the callback that the image handler
    hands to \<^verbatim>\<open>process.nextTick\<close>, suspended at its \<^verbatim>\<open>await fs.unlink(imagePath)\<close> (the
    callback starts before the event loop takes up anything else, so the call is issued in
    the step of the handler);
  \<^item> \<open>UploadPending objectId sessionId\<close>: the upload handler, suspended at
    \<^verbatim>\<open>await req.file()\<close> with the session object it has found;
  \<^item> \<open>Finished\<close>: nothing left to do.
  The state \<open>c\<close> of an \<^verbatim>\<open>fs.unlink\<close> call is \<open>Issued\<close> from the moment the call is made and
  \<open>Returned r\<close> once the operating system has carried it out (\<open>r = None\<close> for success); the file
  disappears between the two, at a moment the JavaScript code does not control, and the
  code after the \<^verbatim>\<open>await\<close> runs later still. A task keeps its position in \<open>deferred\<close>.
\<close>

datatype call = Issued | Returned "fs_error option"

datatype task =
    CleanupFiles call string "string list"
  | PostSendCleanup call string string string
  | UploadPending nat string
  | Finished

record server =
  sessions :: "(string \<times> session) list"
  files :: "(string \<times> buffer) list"
  deferred :: "task list"
  nextObjectId :: nat

text \<open>The replies: an HTTP status code and a body.\<close>

record statusPayload =
  sessionStatus :: status
  partnerConnected :: bool
  remainingTimeoutMs :: int
  newImageIds :: "string list"
  photoCount :: int

datatype body =
    Failure string
  | SessionCreated string string string int int
  | SenderConnected string int int
  | StatusPayload statusPayload
  | UploadOk string
  | ImageData buffer

type_synonym reply = "nat \<times> body"

section \<open>Helper functions of server.js\<close>

definition calculateExpiresAt :: "config \<Rightarrow> int \<Rightarrow> int" where
  "calculateExpiresAt cfg now = now + SESSION_TIMEOUT_MS cfg"

text \<open>
  \<^verbatim>\<open>cleanupSession\<close> returns at once for an unknown id. Otherwise it deletes the session
  object from the store, reads \<^verbatim>\<open>Object.values(session.imagePaths)\<close> and enters the loop
  over these paths: it calls \<^verbatim>\<open>fs.unlink\<close> on the first path and is suspended at that
  \<^verbatim>\<open>await\<close>. No caller awaits \<^verbatim>\<open>cleanupSession\<close>, so this is where the caller goes on: the
  record is gone and the first \<^verbatim>\<open>unlink\<close> is issued. Each later pass of the loop (one path
  per \<^verbatim>\<open>await\<close>, in a try/catch that logs the error and goes on) is a step of \<open>runDeferred\<close>.
\<close>

definition cleanupSession :: "string \<Rightarrow> server \<Rightarrow> server" where
  "cleanupSession sessionId s =
     (case map_of (sessions s) sessionId of
        None \<Rightarrow> s
      | Some session \<Rightarrow>
          (case map snd (imagePaths session) of
             [] \<Rightarrow> s\<lparr>sessions := AList.delete sessionId (sessions s)\<rparr>
           | imagePath # rest \<Rightarrow>
               s\<lparr>sessions := AList.delete sessionId (sessions s),
                 deferred := deferred s @ [CleanupFiles Issued imagePath rest]\<rparr>))"

text \<open>A JavaScript string is falsy when it is undefined or empty.\<close>

fun truthy :: "string option \<Rightarrow> bool" where
  "truthy None = False"
| "truthy (Some v) = (v \<noteq> [])"

text \<open>
  The operating system carries out an issued \<^verbatim>\<open>fs.unlink\<close>: the file goes (or the call
  fails) and the result waits for the event loop.
\<close>

definition performUnlink ::
  "bool \<Rightarrow> string \<Rightarrow> (string \<times> buffer) list \<Rightarrow> call \<times> (string \<times> buffer) list" where
  "performUnlink fault p fs =
     (case unlink fault p fs of
        Inl err \<Rightarrow> (Returned (Some err), fs)
      | Inr fs' \<Rightarrow> (Returned None, fs'))"

fun perform :: "bool \<Rightarrow> task \<Rightarrow> (string \<times> buffer) list \<Rightarrow> task \<times> (string \<times> buffer) list" where
  "perform fault (CleanupFiles Issued imagePath rest) fs =
     (CleanupFiles (fst (performUnlink fault imagePath fs)) imagePath rest,
      snd (performUnlink fault imagePath fs))"
| "perform fault (PostSendCleanup Issued sessionId imageId imagePath) fs =
     (PostSendCleanup (fst (performUnlink fault imagePath fs)) sessionId imageId imagePath,
      snd (performUnlink fault imagePath fs))"
| "perform fault t fs = (t, fs)"

definition fsPerform :: "nat \<Rightarrow> bool \<Rightarrow> server \<Rightarrow> server" where
  "fsPerform n fault s =
     (if n < length (deferred s)
      then s\<lparr>deferred := (deferred s)[n := fst (perform fault (deferred s ! n) (files s))],
             files := snd (perform fault (deferred s ! n) (files s))\<rparr>
      else s)"

text \<open>
  The event loop resumes the code after an \<^verbatim>\<open>await fs.unlink\<close> that has returned. The loop
  of \<^verbatim>\<open>cleanupSession\<close> logs the outcome, whatever it is, and calls \<^verbatim>\<open>fs.unlink\<close> on the
  next path. The callback of the image handler, after a successful \<^verbatim>\<open>unlink\<close>, looks the
  session up again and deletes the entry of the image if the session and the entry are there;
  after a failed \<^verbatim>\<open>unlink\<close> (\<^verbatim>\<open>ENOENT\<close> or not) it only logs.
\<close>

fun resume :: "task \<Rightarrow> server \<Rightarrow> task \<times> server" where
  "resume (CleanupFiles (Returned r) imagePath []) s = (Finished, s)"
| "resume (CleanupFiles (Returned r) imagePath (nextPath # rest)) s =
     (CleanupFiles Issued nextPath rest, s)"
| "resume (PostSendCleanup (Returned None) sessionId imageId imagePath) s =
     (Finished,
      (case map_of (sessions s) sessionId of
         None \<Rightarrow> s
       | Some currentSession \<Rightarrow>
           if truthy (map_of (imagePaths currentSession) imageId)
           then s\<lparr>sessions := AList.update sessionId
                  (currentSession\<lparr>imagePaths := AList.delete imageId (imagePaths currentSession)\<rparr>)
                  (sessions s)\<rparr>
           else s))"
| "resume (PostSendCleanup (Returned (Some unlinkError)) sessionId imageId imagePath) s =
     (Finished, s)"
| "resume t s = (t, s)"

definition runDeferred :: "nat \<Rightarrow> server \<Rightarrow> server" where
  "runDeferred n s =
     (if n < length (deferred s)
      then (snd (resume (deferred s ! n) s))
             \<lparr>deferred := (deferred s)[n := fst (resume (deferred s ! n) s)]\<rparr>
      else s)"

text \<open>The background task, over \<^verbatim>\<open>Object.keys(sessions)\<close> as read when it starts.\<close>

fun sweep :: "int \<Rightarrow> string list \<Rightarrow> server \<Rightarrow> server" where
  "sweep now [] s = s"
| "sweep now (sessionId # rest) s =
     (case map_of (sessions s) sessionId of
        None \<Rightarrow> sweep now rest s
      | Some session \<Rightarrow>
          if expiresAt session < now
          then sweep now rest (cleanupSession sessionId s)
          else sweep now rest s)"

definition runExpiredSessionCleanup :: "int \<Rightarrow> server \<Rightarrow> server" where
  "runExpiredSessionCleanup now s = sweep now (map fst (sessions s)) s"

section \<open>The route handlers\<close>

text \<open>
  Each handler takes what it reads from its environment as arguments: the clock value
  \<open>now\<close>, a fresh UUID, the request parameters, and the result of a call into another
  module (the QR code, the photo counter of the log service, the multipart file). A step
  is a stretch of a handler between two awaits: the single-threaded event loop runs it
  without interruption, at one clock value \<open>now\<close>. The log lines are not part of the state.

  \<^verbatim>\<open>POST /api/session/request\<close>: \<open>qr\<close> is \<open>None\<close> when \<^verbatim>\<open>QRCode.toDataURL\<close> throws;
  \<open>fullUrl\<close> is the sender URL the handler builds from the request headers.
\<close>

definition requestSession ::
  "config \<Rightarrow> int \<Rightarrow> string \<Rightarrow> string \<Rightarrow> string option \<Rightarrow> server \<Rightarrow> reply \<times> server" where
  "requestSession cfg now sessionId fullUrl qr s =
     (case qr of
        None \<Rightarrow> ((500, Failure ''Failed to generate QR code.''), s)
      | Some qrCodeDataUrl \<Rightarrow>
          ((201, SessionCreated sessionId fullUrl qrCodeDataUrl (SESSION_TIMEOUT_MS cfg) POLLING_INTERVAL_MS),
           s\<lparr>sessions := AList.update sessionId
                \<lparr>objectId = nextObjectId s,
                 status = waiting_for_sender,
                 receiverLastSeen = now,
                 senderLastSeen = 0,
                 expiresAt = calculateExpiresAt cfg now,
                 imagePaths = [],
                 pendingImageIds = [],
                 qrUrl = fullUrl,
                 qrData = qrCodeDataUrl,
                 createdAt = now\<rparr> (sessions s),
             nextObjectId := Suc (nextObjectId s)\<rparr>))"

text \<open>\<^verbatim>\<open>POST /api/session/:sessionId/connect\<close>: no await, one step.\<close>

definition connectSender :: "config \<Rightarrow> int \<Rightarrow> string \<Rightarrow> server \<Rightarrow> reply \<times> server" where
  "connectSender cfg now sessionId s =
     (case map_of (sessions s) sessionId of
        None \<Rightarrow> ((404, Failure ''Invalid or expired session ID.''), s)
      | Some session \<Rightarrow>
          if status session \<noteq> waiting_for_sender
             \<and> status session = connected \<and> senderLastSeen session > 0
          then ((409, Failure ''Session already has an active sender.''), s)
          else ((200, SenderConnected sessionId (SESSION_TIMEOUT_MS cfg) POLLING_INTERVAL_MS),
                s\<lparr>sessions := AList.update sessionId
                     (session\<lparr>status := connected,
                              senderLastSeen := now,
                              expiresAt := calculateExpiresAt cfg now\<rparr>) (sessions s)\<rparr>))"

text \<open>
  \<^verbatim>\<open>POST /api/session/:sessionId/status\<close>. \<open>clientType\<close> is the query parameter
  \<^verbatim>\<open>client\<close>, \<open>None\<close> when it is missing; \<open>count\<close> is what \<^verbatim>\<open>getPhotoCount()\<close> of the log
  service returned. The handler looks the session object up and reads the clock, awaits that
  count, and does everything else after this await in one stretch. \<open>pollStatus\<close> is that
  stretch on the session object that the store holds, with \<open>now\<close> the clock value read
  before the await. (A handler whose session object has left the store during the await
  answers from the object it holds; the store is then left as it is, as by the step on a
  missing session, since a session id is a fresh UUID and names no other object.) \<open>touch\<close>
  is the block that updates the caller's last-seen time and marks the other side
  disconnected.
\<close>

definition touch :: "config \<Rightarrow> int \<Rightarrow> string option \<Rightarrow> session \<Rightarrow> session" where
  "touch cfg now clientType session =
     (if clientType = Some ''receiver''
      then (let r = session\<lparr>receiverLastSeen := now\<rparr>
            in if status r = connected \<and> now > senderLastSeen r + CLIENT_TIMEOUT_MS cfg
               then r\<lparr>status := sender_disconnected\<rparr> else r)
      else (let r = session\<lparr>senderLastSeen := now\<rparr>
            in if status r = connected \<and> now > receiverLastSeen r + CLIENT_TIMEOUT_MS cfg
               then r\<lparr>status := receiver_disconnected\<rparr> else r))"

definition pollStatus ::
  "config \<Rightarrow> int \<Rightarrow> string \<Rightarrow> string option \<Rightarrow> int \<Rightarrow> server \<Rightarrow> reply \<times> server" where
  "pollStatus cfg now sessionId clientType count s =
     (if \<not> truthy clientType \<or> (clientType \<noteq> Some ''receiver'' \<and> clientType \<noteq> Some ''sender'')
      then ((400, Failure ''Missing or invalid client type query parameter.''), s)
      else case map_of (sessions s) sessionId of
        None \<Rightarrow> ((404, Failure ''Session not found or expired.''), s)
      | Some session0 \<Rightarrow>
          let session = touch cfg now clientType session0
          in if expiresAt session < now
             then ((404, Failure ''Session expired.''),
                   cleanupSession sessionId (s\<lparr>sessions := AList.update sessionId session (sessions s)\<rparr>))
             else
               let deliver = (clientType = Some ''receiver'' \<and> length (pendingImageIds session) > 0);
                   responsePayload =
                     \<lparr>sessionStatus = status session,
                      partnerConnected = (status session = connected),
                      remainingTimeoutMs = max 0 (expiresAt session - now),
                      newImageIds = (if deliver then pendingImageIds session else []),
                      photoCount = max 0 count\<rparr>;
                   session' = (if deliver then session\<lparr>pendingImageIds := []\<rparr> else session)
               in ((200, StatusPayload responsePayload),
                   s\<lparr>sessions := AList.update sessionId session' (sessions s)\<rparr>))"

text \<open>
  \<^verbatim>\<open>POST /upload\<close>, in its two stretches. \<open>uploadBegin\<close> is the handler up to
  \<^verbatim>\<open>await req.file()\<close>: it looks the session up, rejects the request (\<open>Inl\<close> the reply) or
  resets the deadline and goes on with the session object it holds (\<open>Inr\<close> its identity).
  \<open>uploadFinish\<close> is the handler after its awaits (\<^verbatim>\<open>req.file()\<close>, \<^verbatim>\<open>data.toBuffer()\<close>,
  \<^verbatim>\<open>fs.writeFile\<close>). The multipart part of the request is \<open>NoFile\<close> when \<^verbatim>\<open>req.file()\<close>
  returns nothing, \<open>UploadError limit msg\<close> when reading or writing the file throws
  (\<open>limit\<close> tells whether the error is one of the size-limit errors the handler tests for),
  and \<open>UploadFile filename bytes\<close> when the file is written. Then the handler writes
  \<^verbatim>\<open>imagePaths\<close> and \<^verbatim>\<open>pendingImageIds\<close> of the object it holds, without looking into the
  store again: \<open>writeCaptured\<close> changes the store only if the store still holds that very
  object, and otherwise the write is lost with the object. The file is new under a fresh
  name, so nothing can see it before the step that enters it into \<^verbatim>\<open>imagePaths\<close>. The call
  \<^verbatim>\<open>photoUploaded()\<close> into the log service touches no session and is left to that module.
\<close>

datatype upload = NoFile | UploadError bool string | UploadFile "string option" buffer

definition originalFilename :: "string option \<Rightarrow> string" where
  "originalFilename filename = (if truthy filename then basename (the filename) else ''uploaded-image'')"

definition newImageId :: "string \<Rightarrow> string option \<Rightarrow> string" where
  "newImageId uuid filename = uuid @ ''-'' @ originalFilename filename"

definition uploadBegin :: "config \<Rightarrow> int \<Rightarrow> string \<Rightarrow> server \<Rightarrow> (reply + nat) \<times> server" where
  "uploadBegin cfg now sessionId s =
     (case (if sessionId = [] then None else map_of (sessions s) sessionId) of
        None \<Rightarrow> (Inl (400, Failure ''Missing, invalid or expired session ID.''), s)
      | Some session \<Rightarrow>
          if status session \<noteq> connected
          then (Inl (400, Failure (if status session = waiting_for_sender
                                   then ''Sender has not connected yet.''
                                   else ''Session is not active or receiver is disconnected.'')), s)
          else if now > receiverLastSeen session + SESSION_TIMEOUT_MS cfg
          then (Inl (400, Failure ''Receiver partner disconnected.''),
                cleanupSession sessionId
                  (s\<lparr>sessions := AList.update sessionId
                       (session\<lparr>status := receiver_disconnected\<rparr>) (sessions s)\<rparr>))
          else (Inr (objectId session),
                s\<lparr>sessions := AList.update sessionId
                     (session\<lparr>expiresAt := calculateExpiresAt cfg now\<rparr>) (sessions s)\<rparr>))"

definition writeCaptured :: "nat \<Rightarrow> string \<Rightarrow> (session \<Rightarrow> session) \<Rightarrow> server \<Rightarrow> server" where
  "writeCaptured captured sessionId f s =
     (case map_of (sessions s) sessionId of
        None \<Rightarrow> s
      | Some session \<Rightarrow>
          if objectId session = captured
          then s\<lparr>sessions := AList.update sessionId (f session) (sessions s)\<rparr>
          else s)"

definition addImage :: "string \<Rightarrow> string \<Rightarrow> session \<Rightarrow> session" where
  "addImage imageId imagePath session =
     session\<lparr>imagePaths := AList.update imageId imagePath (imagePaths session),
             pendingImageIds := pendingImageIds session @ [imageId]\<rparr>"

definition uploadFinish ::
  "config \<Rightarrow> string \<Rightarrow> upload \<Rightarrow> nat \<Rightarrow> string \<Rightarrow> server \<Rightarrow> reply \<times> server" where
  "uploadFinish cfg uuid data captured sessionId s =
     (case data of
        NoFile \<Rightarrow> ((400, Failure ''No file uploaded.''), s)
      | UploadError limit msg \<Rightarrow>
          (if limit
           then ((413, Failure (''File upload error: Limit exceeded. '' @ msg)), s)
           else ((500, Failure (''Failed to process upload: '' @ msg)), s))
      | UploadFile filename imageBuffer \<Rightarrow>
          (let imageId = newImageId uuid filename;
               imagePath = path_join (UPLOAD_DIR cfg) imageId
           in ((200, UploadOk (originalFilename filename)),
               writeCaptured captured sessionId (addImage imageId imagePath)
                 (s\<lparr>files := writeFile imagePath imageBuffer (files s)\<rparr>))))"

text \<open>The upload handler when nothing else runs between its two stretches.\<close>

definition uploadImage ::
  "config \<Rightarrow> int \<Rightarrow> string \<Rightarrow> string \<Rightarrow> upload \<Rightarrow> server \<Rightarrow> reply \<times> server" where
  "uploadImage cfg now uuid sessionId data s =
     (case fst (uploadBegin cfg now sessionId s) of
        Inl rejection \<Rightarrow> (rejection, snd (uploadBegin cfg now sessionId s))
      | Inr captured \<Rightarrow>
          uploadFinish cfg uuid data captured sessionId (snd (uploadBegin cfg now sessionId s)))"

text \<open>
  \<^verbatim>\<open>GET /image/:sessionId/:imageId\<close>. The handler looks the session and the path up,
  awaits \<^verbatim>\<open>fs.access\<close> and \<^verbatim>\<open>fs.readFile\<close>, and replies from the buffer read. It writes
  nothing to the session, and a file keeps the contents it was written with, so the look-up
  and the read are one step here. Then the callback that deletes the image starts: its
  \<^verbatim>\<open>fs.unlink\<close> is issued. A path that names no file makes \<^verbatim>\<open>fs.access\<close> throw
  \<^verbatim>\<open>ENOENT\<close>, which the handler answers with 404. A read that fails for another reason,
  answered 500, is left out.
\<close>

definition fetchImage :: "string \<Rightarrow> string \<Rightarrow> server \<Rightarrow> reply \<times> server" where
  "fetchImage sessionId imageId s =
     (case (if sessionId = [] then None else map_of (sessions s) sessionId) of
        None \<Rightarrow> ((404, Failure ''Image not found or session invalid.''), s)
      | Some session \<Rightarrow>
          if \<not> truthy (map_of (imagePaths session) imageId)
          then ((404, Failure ''Image not found (invalid image ID for this session).''), s)
          else
            let imagePath = the (map_of (imagePaths session) imageId)
            in (case readFile imagePath (files s) of
                  Inl err \<Rightarrow> ((404, Failure ''Image file not found.''), s)
                | Inr imageBuffer \<Rightarrow>
                    ((200, ImageData imageBuffer),
                     s\<lparr>deferred := deferred s @ [PostSendCleanup Issued sessionId imageId imagePath]\<rparr>)))"

section \<open>Runs of the server\<close>

text \<open>
  A run is a list of steps, in the order the event loop and the operating system take them:
  requests, runs of the background task, the first stretch of an upload (\<open>UploadBegin\<close>) and
  its second stretch (\<open>UploadFinish n\<close>, for the upload suspended at position \<open>n\<close>, with the
  UUID and the file it gets), an issued \<^verbatim>\<open>unlink\<close> carried out by the operating system
  (\<open>FsPerform n fault\<close>) and the code after an \<^verbatim>\<open>await fs.unlink\<close> resumed (\<open>RunDeferred n\<close>).
  Steps of different handlers interleave freely.
\<close>

datatype op =
    Request int string string "string option"
  | Connect int string
  | Poll int string "string option" int
  | UploadBegin int string
  | UploadFinish nat string upload
  | Fetch string string
  | Sweep int
  | FsPerform nat bool
  | RunDeferred nat

definition beginUpload :: "config \<Rightarrow> int \<Rightarrow> string \<Rightarrow> server \<Rightarrow> server" where
  "beginUpload cfg now sessionId s =
     (case fst (uploadBegin cfg now sessionId s) of
        Inl rejection \<Rightarrow> snd (uploadBegin cfg now sessionId s)
      | Inr captured \<Rightarrow>
          (snd (uploadBegin cfg now sessionId s))
            \<lparr>deferred := deferred (snd (uploadBegin cfg now sessionId s))
                          @ [UploadPending captured sessionId]\<rparr>)"

fun pendingUpload :: "task \<Rightarrow> (nat \<times> string) option" where
  "pendingUpload (UploadPending captured sessionId) = Some (captured, sessionId)"
| "pendingUpload t = None"

definition finishUpload :: "config \<Rightarrow> nat \<Rightarrow> string \<Rightarrow> upload \<Rightarrow> server \<Rightarrow> reply option \<times> server" where
  "finishUpload cfg n uuid data s =
     (if n < length (deferred s)
      then (case pendingUpload (deferred s ! n) of
              None \<Rightarrow> (None, s)
            | Some (captured, sessionId) \<Rightarrow>
                (Some (fst (uploadFinish cfg uuid data captured sessionId s)),
                 (snd (uploadFinish cfg uuid data captured sessionId s))
                   \<lparr>deferred := (deferred s)[n := Finished]\<rparr>))
      else (None, s))"

fun step :: "config \<Rightarrow> op \<Rightarrow> server \<Rightarrow> server" where
  "step cfg (Request now sessionId fullUrl qr) s = snd (requestSession cfg now sessionId fullUrl qr s)"
| "step cfg (Connect now sessionId) s = snd (connectSender cfg now sessionId s)"
| "step cfg (Poll now sessionId clientType count) s = snd (pollStatus cfg now sessionId clientType count s)"
| "step cfg (UploadBegin now sessionId) s = beginUpload cfg now sessionId s"
| "step cfg (UploadFinish n uuid data) s = snd (finishUpload cfg n uuid data s)"
| "step cfg (Fetch sessionId imageId) s = snd (fetchImage sessionId imageId s)"
| "step cfg (Sweep now) s = runExpiredSessionCleanup now s"
| "step cfg (FsPerform n fault) s = fsPerform n fault s"
| "step cfg (RunDeferred n) s = runDeferred n s"

fun run :: "config \<Rightarrow> op list \<Rightarrow> server \<Rightarrow> server" where
  "run cfg [] s = s"
| "run cfg (x # xs) s = run cfg xs (step cfg x s)"

section \<open>Predicates used in the properties\<close>

text \<open>
  What a caller of \<^verbatim>\<open>cleanupSession\<close> sees when the call hands control back, for a session
  that was in the store: the record is gone; if the session had image paths, the loop over
  them is suspended with the \<^verbatim>\<open>unlink\<close> of the first path issued, and the files of its
  other paths are as they were.
\<close>

definition destroyed :: "string \<Rightarrow> session \<Rightarrow> server \<Rightarrow> server \<Rightarrow> bool" where
  "destroyed sessionId session s s' \<longleftrightarrow>
     map_of (sessions s') sessionId = None
     \<and> (case map snd (imagePaths session) of
           [] \<Rightarrow> True
         | imagePath # rest \<Rightarrow>
             CleanupFiles Issued imagePath rest \<in> set (deferred s')
             \<and> (\<forall>q \<in> set rest. q \<noteq> imagePath \<longrightarrow> map_of (files s') q = map_of (files s) q))"

text \<open>
  The steps that take the loop of \<^verbatim>\<open>cleanupSession\<close> at position \<open>n\<close> through its paths:
  for each path the operating system carries out the \<^verbatim>\<open>unlink\<close> (meeting a failure other
  than \<^verbatim>\<open>ENOENT\<close> or not, as \<open>faults\<close> tells) and the loop is resumed.
\<close>

fun cleanupSteps :: "nat \<Rightarrow> bool list \<Rightarrow> op list" where
  "cleanupSteps n [] = []"
| "cleanupSteps n (fault # faults) = FsPerform n fault # RunDeferred n # cleanupSteps n faults"

text \<open>
  The loop of \<^verbatim>\<open>cleanupSession\<close> in a run where other steps are taken between its passes.
  \<open>todo\<close> is the list of paths on which a suspended loop has still to have its \<^verbatim>\<open>unlink\<close>
  carried out. \<open>attempts\<close> is the list of the \<^verbatim>\<open>unlink\<close> calls that the operating system
  carries out for the loop at position \<open>n\<close> in a run: the path, and whether the call met a
  failure other than \<^verbatim>\<open>ENOENT\<close>. \<open>writes\<close> says that a step completes an upload whose file
  is written at the path.
\<close>

fun todo :: "task \<Rightarrow> string list" where
  "todo (CleanupFiles Issued imagePath rest) = imagePath # rest"
| "todo (CleanupFiles (Returned r) imagePath rest) = rest"
| "todo t = []"

fun unlinking :: "task \<Rightarrow> string list" where
  "unlinking (CleanupFiles Issued imagePath rest) = [imagePath]"
| "unlinking t = []"

fun attempt :: "nat \<Rightarrow> op \<Rightarrow> server \<Rightarrow> (string \<times> bool) list" where
  "attempt n (FsPerform m fault) s =
     (if m = n \<and> n < length (deferred s)
      then map (\<lambda>imagePath. (imagePath, fault)) (unlinking (deferred s ! n))
      else [])"
| "attempt n x s = []"

fun attempts :: "config \<Rightarrow> nat \<Rightarrow> op list \<Rightarrow> server \<Rightarrow> (string \<times> bool) list" where
  "attempts cfg n [] s = []"
| "attempts cfg n (x # xs) s = attempt n x s @ attempts cfg n xs (step cfg x s)"

fun writes :: "config \<Rightarrow> string \<Rightarrow> op \<Rightarrow> bool" where
  "writes cfg q (UploadFinish n uuid (UploadFile filename imageBuffer)) =
     (path_join (UPLOAD_DIR cfg) (newImageId uuid filename) = q)"
| "writes cfg q x = False"

text \<open>The store with the deadline of one session replaced.\<close>

definition withExpiresAt :: "string \<Rightarrow> session \<Rightarrow> int \<Rightarrow> server \<Rightarrow> server" where
  "withExpiresAt sessionId session e s =
     s\<lparr>sessions := AList.update sessionId (session\<lparr>expiresAt := e\<rparr>) (sessions s)\<rparr>"

text \<open>
  The steps that write \<^verbatim>\<open>expiresAt\<close> of the session stored under an id, with the clock
  value they read: a session request that stores a new session under the id, a connect
  answered 200, and the first stretch of an upload that passes the checks on the session.
  \<open>lastExtend\<close> is the clock value of the last such step of a run.
\<close>

fun extends :: "config \<Rightarrow> string \<Rightarrow> op \<Rightarrow> server \<Rightarrow> int option" where
  "extends cfg sessionId (Request now sessionId' fullUrl qr) s =
     (if sessionId' = sessionId \<and> qr \<noteq> None then Some now else None)"
| "extends cfg sessionId (Connect now sessionId') s =
     (if sessionId' = sessionId \<and> fst (fst (connectSender cfg now sessionId' s)) = 200
      then Some now else None)"
| "extends cfg sessionId (UploadBegin now sessionId') s =
     (if sessionId' = sessionId \<and> \<not> isl (fst (uploadBegin cfg now sessionId' s))
      then Some now else None)"
| "extends cfg sessionId x s = None"

fun lastExtend :: "config \<Rightarrow> string \<Rightarrow> op list \<Rightarrow> server \<Rightarrow> int option" where
  "lastExtend cfg sessionId [] s = None"
| "lastExtend cfg sessionId (x # xs) s =
     (case lastExtend cfg sessionId xs (step cfg x s) of
        Some t \<Rightarrow> Some t
      | None \<Rightarrow> extends cfg sessionId x s)"

text \<open>The session is absent or its status is not connected.\<close>

definition not_connected :: "string \<Rightarrow> server \<Rightarrow> bool" where
  "not_connected sessionId s =
     (case map_of (sessions s) sessionId of
        None \<Rightarrow> True
      | Some session \<Rightarrow> status session \<noteq> connected)"

text \<open>The operation is a connect on this session id.\<close>

fun is_connect :: "string \<Rightarrow> op \<Rightarrow> bool" where
  "is_connect sessionId (Connect now sessionId') = (sessionId' = sessionId)"
| "is_connect sessionId x = False"


text \<open>
  The image ids that the uploads of a run add to a session. An upload counts at the step
  that completes it: its file is written (the reply is 200) and the handler is the one
  suspended at position \<open>n\<close> with the object that the store holds under the session id.
\<close>

definition uploadsTo :: "string \<Rightarrow> nat \<Rightarrow> server \<Rightarrow> bool" where
  "uploadsTo sessionId n s =
     (n < length (deferred s)
      \<and> (case map_of (sessions s) sessionId of
            None \<Rightarrow> False
          | Some session \<Rightarrow> deferred s ! n = UploadPending (objectId session) sessionId))"

fun uploadedId :: "string \<Rightarrow> op \<Rightarrow> server \<Rightarrow> string list" where
  "uploadedId sessionId (UploadFinish n uuid (UploadFile filename imageBuffer)) s =
     (if uploadsTo sessionId n s then [newImageId uuid filename] else [])"
| "uploadedId sessionId x s = []"


text \<open>The session is absent or its imagePaths holds no usable entry for the image id.\<close>

definition no_image :: "string \<Rightarrow> string \<Rightarrow> server \<Rightarrow> bool" where
  "no_image sessionId imageId s =
     (case map_of (sessions s) sessionId of
        None \<Rightarrow> True
      | Some session \<Rightarrow> \<not> truthy (map_of (imagePaths session) imageId))"

text \<open>The operation completes an upload that generates this very image id.\<close>

fun reuploads :: "string \<Rightarrow> op \<Rightarrow> bool" where
  "reuploads imageId (UploadFinish n uuid (UploadFile filename imageBuffer)) =
     (newImageId uuid filename = imageId)"
| "reuploads imageId x = False"

section \<open>Concrete states\<close>

definition cfg0 :: config where
  "cfg0 = \<lparr>SESSION_TIMEOUT_MS = 120000, CLIENT_TIMEOUT_MS = 3000, UPLOAD_DIR = ''up''\<rparr>"

definition sess0 :: session where
  "sess0 = \<lparr>objectId = 0, status = connected, receiverLastSeen = 1000, senderLastSeen = 1000,
            expiresAt = 121000, imagePaths = [(''a'', ''up/a'')], pendingImageIds = [''a''],
            qrUrl = ''u'', qrData = ''q'', createdAt = 0\<rparr>"

definition srv0 :: server where
  "srv0 = \<lparr>sessions = [(''s'', sess0)], files = [(''up/a'', [1, 2, 3])], deferred = [],
           nextObjectId = 1\<rparr>"

definition sess1 :: session where
  "sess1 = \<lparr>objectId = 0, status = receiver_disconnected, receiverLastSeen = 1000,
            senderLastSeen = 9000, expiresAt = 121000, imagePaths = [],
            pendingImageIds = [''a'', ''b''], qrUrl = ''u'', qrData = ''q'', createdAt = 0\<rparr>"

definition srv1 :: server where
  "srv1 = \<lparr>sessions = [(''s'', sess1)], files = [], deferred = [], nextObjectId = 1\<rparr>"

definition sess2 :: session where
  "sess2 = \<lparr>objectId = 0, status = connected, receiverLastSeen = 1000, senderLastSeen = 5000,
            expiresAt = 121000, imagePaths = [], pendingImageIds = [],
            qrUrl = ''u'', qrData = ''q'', createdAt = 0\<rparr>"

definition srv2 :: server where
  "srv2 = \<lparr>sessions = [(''s'', sess2)], files = [], deferred = [], nextObjectId = 1\<rparr>"

definition sess3 :: session where
  "sess3 = \<lparr>objectId = 0, status = connected, receiverLastSeen = 120500, senderLastSeen = 120600,
            expiresAt = 121000, imagePaths = [(''a'', ''up/a'')], pendingImageIds = [],
            qrUrl = ''u'', qrData = ''q'', createdAt = 0\<rparr>"

definition srv3 :: server where
  "srv3 = \<lparr>sessions = [(''s'', sess3)], files = [(''up/a'', [1, 2, 3])], deferred = [],
           nextObjectId = 1\<rparr>"

definition sess4 :: session where
  "sess4 = \<lparr>objectId = 0, status = connected, receiverLastSeen = 1000, senderLastSeen = 1000,
            expiresAt = 121000, imagePaths = [(''a'', ''up/a''), (''b'', ''up/b'')],
            pendingImageIds = [''a'', ''b''], qrUrl = ''u'', qrData = ''q'', createdAt = 0\<rparr>"

definition srv4 :: server where
  "srv4 = \<lparr>sessions = [(''s'', sess4)], files = [(''up/a'', [1, 2, 3]), (''up/b'', [4, 5])],
           deferred = [], nextObjectId = 1\<rparr>"

definition srv2_polled :: server where
  "srv2_polled = snd (pollStatus cfg0 9000 ''s'' (Some ''sender'') 0 srv2)"

definition ops1 :: "op list" where
  "ops1 = [Poll 9000 ''s'' (Some ''receiver'') 0, Poll 9100 ''s'' (Some ''sender'') 0,
           UploadBegin 9200 ''s'', UploadFinish 0 ''u1'' (UploadFile (Some ''cat.jpg'') [7]),
           Fetch ''s'' ''a'', Sweep 9500, FsPerform 0 False, RunDeferred 0]"






definition ops3 :: "op list" where
  "ops3 = [UploadBegin 6100 ''s'', Poll 6200 ''s'' (Some ''sender'') 0,
           UploadFinish 0 ''u1'' NoFile, Poll 6400 ''s'' (Some ''receiver'') 0]"

definition sess7 :: session where
  "sess7 = \<lparr>objectId = 0, status = receiver_disconnected, receiverLastSeen = 6400,
            senderLastSeen = 6200, expiresAt = 126100, imagePaths = [], pendingImageIds = [],
            qrUrl = ''u'', qrData = ''q'', createdAt = 0\<rparr>"

definition srv4_swept :: server where
  "srv4_swept = \<lparr>sessions = [], files = [(''up/a'', [1, 2, 3]), (''up/b'', [4, 5])],
                 deferred = [CleanupFiles Issued ''up/a'' [''up/b'']], nextObjectId = 1\<rparr>"

definition ops4 :: "op list" where
  "ops4 = [FsPerform 0 False, Fetch ''s'' ''a'', RunDeferred 0, FsPerform 0 True, RunDeferred 0]"

definition srv0_fetched :: server where
  "srv0_fetched = srv0\<lparr>deferred := [PostSendCleanup Issued ''s'' ''a'' ''up/a'']\<rparr>"

definition srv0_unlinked :: server where
  "srv0_unlinked = srv0\<lparr>files := [], deferred := [PostSendCleanup (Returned None) ''s'' ''a'' ''up/a'']\<rparr>"

definition ops5 :: "op list" where
  "ops5 = [Poll 2000 ''s'' (Some ''sender'') 0, UploadBegin 2100 ''s'',
           UploadFinish 1 ''u1'' (UploadFile (Some ''a'') [7]), Fetch ''s'' ''u1-a'']"

section \<open>Auxiliary facts\<close>

text \<open>The defining equations that evaluate the handlers on a concrete state.\<close>

lemmas eval_defs =
  pollStatus_def touch_def uploadImage_def uploadBegin_def uploadFinish_def writeCaptured_def
  addImage_def beginUpload_def finishUpload_def connectSender_def fetchImage_def
  requestSession_def Let_def originalFilename_def basename_def calculateExpiresAt_def
  newImageId_def path_join_def writeFile_def readFile_def unlink_def performUnlink_def
  fsPerform_def runDeferred_def runExpiredSessionCleanup_def cleanupSession_def cfg0_def
  POLLING_INTERVAL_MS_def

subsection \<open>The last-seen update\<close>

lemma touch_expiresAt: "expiresAt (touch cfg now clientType session) = expiresAt session"
  by (simp add: touch_def Let_def)

lemma touch_pendingImageIds: "pendingImageIds (touch cfg now clientType session) = pendingImageIds session"
  by (simp add: touch_def Let_def)

lemma touch_imagePaths: "imagePaths (touch cfg now clientType session) = imagePaths session"
  by (simp add: touch_def Let_def)

lemma touch_objectId: "objectId (touch cfg now clientType session) = objectId session"
  by (simp add: touch_def Let_def)

lemma touch_not_connected:
  "status session \<noteq> connected \<Longrightarrow> status (touch cfg now clientType session) \<noteq> connected"
  by (simp add: touch_def Let_def)

subsection \<open>cleanupSession and the background task\<close>

lemma cleanupSession_sessions:
  "sessions (cleanupSession sessionId s) = AList.delete sessionId (sessions s)"
proof (cases "map_of (sessions s) sessionId")
  case None
  then have "sessionId \<notin> fst ` set (sessions s)" by (simp add: map_of_eq_None_iff)
  then show ?thesis using None by (simp add: cleanupSession_def)
next
  case (Some a)
  then show ?thesis by (simp add: cleanupSession_def split: list.splits)
qed

lemma cleanupSession_lookup:
  "map_of (sessions (cleanupSession sessionId s)) k =
     (if k = sessionId then None else map_of (sessions s) k)"
  by (simp add: cleanupSession_sessions delete_conv')

lemma cleanupSession_files: "files (cleanupSession sessionId s) = files s"
  by (simp add: cleanupSession_def split: option.splits list.splits)

lemma cleanupSession_deferred:
  "deferred (cleanupSession sessionId s) =
     (case map_of (sessions s) sessionId of
        None \<Rightarrow> deferred s
      | Some session \<Rightarrow>
          (case map snd (imagePaths session) of
             [] \<Rightarrow> deferred s
           | imagePath # rest \<Rightarrow> deferred s @ [CleanupFiles Issued imagePath rest]))"
  by (simp add: cleanupSession_def split: option.splits list.splits)

lemma cleanupSession_prefix: "\<exists>ys. deferred (cleanupSession sessionId s) = deferred s @ ys"
  by (simp add: cleanupSession_deferred split: option.splits list.splits)

lemma sweep_lookup:
  "map_of (sessions (sweep now ids s)) k =
     (case map_of (sessions s) k of
        None \<Rightarrow> None
      | Some session \<Rightarrow> if k \<in> set ids \<and> expiresAt session < now then None else Some session)"
proof (induction ids arbitrary: s)
  case Nil
  show ?case by (simp split: option.splits)
next
  case (Cons i ids)
  show ?case
    by (auto simp add: Cons.IH cleanupSession_lookup split: option.splits)
qed

lemma sweep_files: "files (sweep now ids s) = files s"
  by (induction ids arbitrary: s) (auto simp add: cleanupSession_files split: option.splits)

lemma sweep_prefix: "\<exists>ys. deferred (sweep now ids s) = deferred s @ ys"
proof (induction ids arbitrary: s)
  case Nil
  show ?case by simp
next
  case (Cons i ids)
  obtain ys where ys: "deferred (cleanupSession i s) = deferred s @ ys"
    using cleanupSession_prefix by blast
  obtain zs where zs: "deferred (sweep now ids (cleanupSession i s)) = deferred (cleanupSession i s) @ zs"
    using Cons.IH by blast
  obtain ws where ws: "deferred (sweep now ids s) = deferred s @ ws"
    using Cons.IH by blast
  show ?case
    by (cases "map_of (sessions s) i") (auto simp add: ys zs ws)
qed

lemma sweep_queues_cleanup:
  assumes "map_of (sessions s) k = Some session"
    and "k \<in> set ids" and "expiresAt session < now"
    and "map snd (imagePaths session) = imagePath # rest"
  shows "CleanupFiles Issued imagePath rest \<in> set (deferred (sweep now ids s))"
  using assms
proof (induction ids arbitrary: s)
  case Nil
  then show ?case by simp
next
  case (Cons i ids)
  show ?case
  proof (cases "i = k")
    case True
    have "CleanupFiles Issued imagePath rest \<in> set (deferred (cleanupSession k s))"
      using Cons.prems by (simp add: cleanupSession_deferred)
    moreover obtain ys where
      "deferred (sweep now ids (cleanupSession k s)) = deferred (cleanupSession k s) @ ys"
      using sweep_prefix by blast
    ultimately show ?thesis using True Cons.prems by simp
  next
    case False
    then have kin: "k \<in> set ids" using Cons.prems by simp
    have keep: "map_of (sessions (cleanupSession i s)) k = Some session"
      using False Cons.prems by (simp add: cleanupSession_lookup)
    show ?thesis
      using Cons.IH [OF keep kin Cons.prems(3) Cons.prems(4)]
        Cons.IH [OF Cons.prems(1) kin Cons.prems(3) Cons.prems(4)]
      by (simp split: option.splits)
  qed
qed

lemma sweep_session:
  "map_of (sessions (runExpiredSessionCleanup now s)) k = Some session'
     \<Longrightarrow> map_of (sessions s) k = Some session'"
  by (simp add: runExpiredSessionCleanup_def sweep_lookup split: option.splits if_splits)

subsection \<open>The branches of the handlers\<close>

lemma poll_expired:
  assumes "map_of (sessions s) sessionId = Some session"
    and "clientType = Some ''receiver'' \<or> clientType = Some ''sender''"
    and "expiresAt session < now"
  shows "pollStatus cfg now sessionId clientType count s =
           ((404, Failure ''Session expired.''),
            cleanupSession sessionId
              (s\<lparr>sessions := AList.update sessionId (touch cfg now clientType session) (sessions s)\<rparr>))"
  using assms by (auto simp add: pollStatus_def Let_def touch_expiresAt)

lemma begin_no_session:
  assumes "sid = [] \<or> map_of (sessions s) sid = None"
  shows "uploadBegin cfg now sid s =
           (Inl (400, Failure ''Missing, invalid or expired session ID.''), s)"
  using assms by (auto simp add: uploadBegin_def)

lemma begin_not_connected:
  assumes "map_of (sessions s) sid = Some u" and "sid \<noteq> []" and "status u \<noteq> connected"
  shows "\<exists>msg. uploadBegin cfg now sid s = (Inl (400, Failure msg), s)"
  using assms by (simp add: uploadBegin_def)

lemma begin_stale:
  assumes "map_of (sessions s) sid = Some u" and "sid \<noteq> []" and "status u = connected"
    and "now > receiverLastSeen u + SESSION_TIMEOUT_MS cfg"
  shows "uploadBegin cfg now sid s =
           (Inl (400, Failure ''Receiver partner disconnected.''),
            cleanupSession sid
              (s\<lparr>sessions := AList.update sid (u\<lparr>status := receiver_disconnected\<rparr>) (sessions s)\<rparr>))"
  using assms by (simp add: uploadBegin_def)

lemma begin_accepted:
  assumes "map_of (sessions s) sid = Some u" and "sid \<noteq> []" and "status u = connected"
    and "\<not> now > receiverLastSeen u + SESSION_TIMEOUT_MS cfg"
  shows "uploadBegin cfg now sid s =
           (Inr (objectId u),
            s\<lparr>sessions := AList.update sid (u\<lparr>expiresAt := calculateExpiresAt cfg now\<rparr>) (sessions s)\<rparr>)"
  using assms by (simp add: uploadBegin_def)

lemma upload_stale:
  assumes "map_of (sessions s) sid = Some u" and "sid \<noteq> []" and "status u = connected"
    and "now > receiverLastSeen u + SESSION_TIMEOUT_MS cfg"
  shows "uploadImage cfg now uuid sid data s =
           ((400, Failure ''Receiver partner disconnected.''),
            cleanupSession sid
              (s\<lparr>sessions := AList.update sid (u\<lparr>status := receiver_disconnected\<rparr>) (sessions s)\<rparr>))"
  by (simp add: uploadImage_def begin_stale [OF assms])

lemma upload_not_connected:
  assumes "map_of (sessions s) sid = Some u" and "sid \<noteq> []" and "status u \<noteq> connected"
  shows "fst (fst (uploadImage cfg now uuid sid data s)) = 400"
    and "snd (uploadImage cfg now uuid sid data s) = s"
proof -
  obtain msg where "uploadBegin cfg now sid s = (Inl (400, Failure msg), s)"
    using begin_not_connected [OF assms] by blast
  then show "fst (fst (uploadImage cfg now uuid sid data s)) = 400"
    and "snd (uploadImage cfg now uuid sid data s) = s"
    by (simp_all add: uploadImage_def)
qed

lemma finish_reply:
  "fst (uploadFinish cfg uuid data captured sid s) = fst (uploadFinish cfg uuid data captured' sid' s')"
  by (cases data) (simp_all add: uploadFinish_def Let_def)

lemma fetch_no_session:
  assumes "sessionId = [] \<or> map_of (sessions s) sessionId = None"
  shows "fetchImage sessionId imageId s = ((404, Failure ''Image not found or session invalid.''), s)"
  using assms by (auto simp add: fetchImage_def)

lemma fetch_sessions: "sessions (snd (fetchImage sid iid s)) = sessions s"
proof (cases "sid = [] \<or> map_of (sessions s) sid = None")
  case True
  then show ?thesis by (simp add: fetch_no_session)
next
  case False
  then obtain u where u: "map_of (sessions s) sid = Some u" and ne: "sid \<noteq> []" by auto
  show ?thesis
  proof (cases "truthy (map_of (imagePaths u) iid)")
    case False
    then show ?thesis using u ne by (simp add: fetchImage_def)
  next
    case True
    then show ?thesis using u ne
      by (cases "readFile (the (map_of (imagePaths u) iid)) (files s)")
        (simp_all add: fetchImage_def Let_def)
  qed
qed

lemma fetch_prefix: "\<exists>ys. deferred (snd (fetchImage sid iid s)) = deferred s @ ys"
proof (cases "sid = [] \<or> map_of (sessions s) sid = None")
  case True
  then show ?thesis by (simp add: fetch_no_session)
next
  case False
  then obtain u where u: "map_of (sessions s) sid = Some u" and ne: "sid \<noteq> []" by auto
  show ?thesis
  proof (cases "truthy (map_of (imagePaths u) iid)")
    case False
    then show ?thesis using u ne by (simp add: fetchImage_def)
  next
    case True
    then show ?thesis using u ne
      by (cases "readFile (the (map_of (imagePaths u) iid)) (files s)")
        (simp_all add: fetchImage_def Let_def)
  qed
qed

lemma fetch_ok:
  assumes "fetchImage sessionId imageId s = ((200, ImageData b), s1)"
  shows "\<exists>u p. sessionId \<noteq> [] \<and> map_of (sessions s) sessionId = Some u
           \<and> map_of (imagePaths u) imageId = Some p \<and> p \<noteq> []
           \<and> map_of (files s) p = Some b
           \<and> s1 = s\<lparr>deferred := deferred s @ [PostSendCleanup Issued sessionId imageId p]\<rparr>"
proof (cases "sessionId = [] \<or> map_of (sessions s) sessionId = None")
  case True
  from fetch_no_session [OF this] show ?thesis using assms by simp
next
  case False
  then obtain u where u: "map_of (sessions s) sessionId = Some u" and ne: "sessionId \<noteq> []" by auto
  show ?thesis
  proof (cases "map_of (imagePaths u) imageId")
    case None
    then show ?thesis using assms u ne by (simp add: fetchImage_def)
  next
    case (Some p)
    show ?thesis
    proof (cases "p = []")
      case True
      then show ?thesis using assms u ne Some by (simp add: fetchImage_def)
    next
      case False
      show ?thesis
      proof (cases "map_of (files s) p")
        case None
        then show ?thesis using assms u ne Some False
          by (simp add: fetchImage_def readFile_def)
      next
        case (Some c)
        then show ?thesis using assms u ne \<open>map_of (imagePaths u) imageId = Some p\<close> False
          by (auto simp add: fetchImage_def readFile_def)
      qed
    qed
  qed
qed

lemma fetch_again:
  assumes "sessionId \<noteq> []" and "map_of (sessions s) sessionId = Some u"
    and "map_of (imagePaths u) imageId = Some p" and "p \<noteq> []"
    and "map_of (files s) p = Some b"
  shows "fst (fetchImage sessionId imageId s) = (200, ImageData b)"
  using assms by (simp add: fetchImage_def readFile_def)

lemma fetch_no_image:
  assumes "no_image sessionId imageId s"
  shows "fst (fst (fetchImage sessionId imageId s)) = 404"
proof (cases "sessionId = [] \<or> map_of (sessions s) sessionId = None")
  case True
  then show ?thesis by (simp add: fetch_no_session)
next
  case False
  then obtain u where u: "map_of (sessions s) sessionId = Some u" and ne: "sessionId \<noteq> []" by auto
  then have "\<not> truthy (map_of (imagePaths u) imageId)"
    using assms by (simp add: no_image_def)
  then show ?thesis using u ne by (simp add: fetchImage_def)
qed

subsection \<open>What a step leaves of a session\<close>

lemma request_effect:
  assumes "map_of (sessions (snd (requestSession cfg now sid url qr s))) k = Some session'"
  shows "(\<not> (k = sid \<and> qr \<noteq> None) \<and> map_of (sessions s) k = Some session')
         \<or> (k = sid \<and> qr \<noteq> None \<and> status session' = waiting_for_sender
              \<and> imagePaths session' = [] \<and> pendingImageIds session' = []
              \<and> expiresAt session' = now + SESSION_TIMEOUT_MS cfg)"
  using assms
  by (cases qr)
    (auto simp add: requestSession_def update_conv' calculateExpiresAt_def split: if_splits)

lemma connect_effect:
  assumes "map_of (sessions (snd (connectSender cfg now sid s))) k = Some session'"
  shows "\<exists>session. map_of (sessions s) k = Some session
           \<and> session' = (if k = sid \<and> fst (fst (connectSender cfg now sid s)) = 200
                          then session\<lparr>status := connected, senderLastSeen := now,
                                         expiresAt := now + SESSION_TIMEOUT_MS cfg\<rparr>
                          else session)"
proof (cases "map_of (sessions s) sid")
  case None
  then show ?thesis using assms by (auto simp add: connectSender_def)
next
  case (Some u)
  show ?thesis
  proof (cases "status u = connected \<and> senderLastSeen u > 0")
    case True
    then show ?thesis using assms Some by (auto simp add: connectSender_def)
  next
    case False
    then have eq: "connectSender cfg now sid s =
        ((200, SenderConnected sid (SESSION_TIMEOUT_MS cfg) POLLING_INTERVAL_MS),
         s\<lparr>sessions := AList.update sid
             (u\<lparr>status := connected, senderLastSeen := now,
                expiresAt := now + SESSION_TIMEOUT_MS cfg\<rparr>) (sessions s)\<rparr>)"
      using Some by (auto simp add: connectSender_def calculateExpiresAt_def)
    show ?thesis using assms Some
      by (cases "k = sid") (auto simp add: eq update_conv')
  qed
qed

lemma poll_effect:
  assumes "map_of (sessions (snd (pollStatus cfg now sid clientType count s))) k = Some session'"
  shows "\<exists>session. map_of (sessions s) k = Some session
           \<and> (session' = session
               \<or> (k = sid \<and> session' = touch cfg now clientType session)
               \<or> (k = sid \<and> clientType = Some ''receiver''
                    \<and> session' = (touch cfg now clientType session)\<lparr>pendingImageIds := []\<rparr>))"
proof (cases "clientType = Some ''receiver'' \<or> clientType = Some ''sender''")
  case False
  then have "snd (pollStatus cfg now sid clientType count s) = s"
    by (simp add: pollStatus_def)
  then show ?thesis using assms by simp
next
  case valid: True
  show ?thesis
  proof (cases "map_of (sessions s) sid")
    case None
    then have "snd (pollStatus cfg now sid clientType count s) = s"
      by (simp add: pollStatus_def)
    then show ?thesis using assms by simp
  next
    case (Some u)
    show ?thesis
    proof (cases "expiresAt u < now")
      case True
      note e = poll_expired [OF Some valid True, of cfg count]
      have "k \<noteq> sid" and "map_of (sessions s) k = Some session'"
        using assms by (simp_all add: e cleanupSession_lookup update_conv' split: if_splits)
      then show ?thesis by simp
    next
      case False
      have "\<exists>v. snd (pollStatus cfg now sid clientType count s) =
                 s\<lparr>sessions := AList.update sid v (sessions s)\<rparr>
               \<and> (v = touch cfg now clientType u
                   \<or> (clientType = Some ''receiver''
                        \<and> v = (touch cfg now clientType u)\<lparr>pendingImageIds := []\<rparr>))"
        using Some valid False
        by (auto simp add: pollStatus_def Let_def touch_expiresAt)
      then obtain v where
        v: "snd (pollStatus cfg now sid clientType count s) = s\<lparr>sessions := AList.update sid v (sessions s)\<rparr>"
        and vv: "v = touch cfg now clientType u
                   \<or> (clientType = Some ''receiver''
                        \<and> v = (touch cfg now clientType u)\<lparr>pendingImageIds := []\<rparr>)"
        by blast
      show ?thesis
      proof (cases "k = sid")
        case True
        then have "session' = v" using assms by (simp add: v update_conv')
        then show ?thesis using True Some vv by auto
      next
        case False
        then show ?thesis using assms by (simp add: v update_conv')
      qed
    qed
  qed
qed

lemma begin_effect:
  assumes "map_of (sessions (snd (uploadBegin cfg now sid s))) k = Some session'"
  shows "\<exists>session. map_of (sessions s) k = Some session
           \<and> session' = (if k = sid \<and> \<not> isl (fst (uploadBegin cfg now sid s))
                          then session\<lparr>expiresAt := now + SESSION_TIMEOUT_MS cfg\<rparr>
                          else session)"
proof (cases "sid = [] \<or> map_of (sessions s) sid = None")
  case True
  from begin_no_session [OF this, of cfg now] show ?thesis using assms by simp
next
  case False
  then obtain u where u: "map_of (sessions s) sid = Some u" and ne: "sid \<noteq> []" by auto
  show ?thesis
  proof (cases "status u = connected")
    case nc: False
    from begin_not_connected [OF u ne nc, of cfg now] show ?thesis using assms by auto
  next
    case c: True
    show ?thesis
    proof (cases "now > receiverLastSeen u + SESSION_TIMEOUT_MS cfg")
      case True
      note st = begin_stale [OF u ne c True]
      have "k \<noteq> sid" and "map_of (sessions s) k = Some session'"
        using assms by (simp_all add: st cleanupSession_lookup update_conv' split: if_splits)
      then show ?thesis by simp
    next
      case False
      note acc = begin_accepted [OF u ne c False]
      show ?thesis using assms u
        by (cases "k = sid") (auto simp add: acc update_conv' calculateExpiresAt_def)
    qed
  qed
qed

lemma begin_prefix:
  "\<exists>ys. deferred (snd (uploadBegin cfg now sid s)) = deferred s @ ys"
proof (cases "sid = [] \<or> map_of (sessions s) sid = None")
  case True
  from begin_no_session [OF this, of cfg now] show ?thesis by simp
next
  case False
  then obtain u where u: "map_of (sessions s) sid = Some u" and ne: "sid \<noteq> []" by auto
  show ?thesis
  proof (cases "status u = connected")
    case nc: False
    from begin_not_connected [OF u ne nc, of cfg now] show ?thesis by auto
  next
    case c: True
    show ?thesis
    proof (cases "now > receiverLastSeen u + SESSION_TIMEOUT_MS cfg")
      case True
      obtain ys where "deferred (cleanupSession sid
              (s\<lparr>sessions := AList.update sid (u\<lparr>status := receiver_disconnected\<rparr>) (sessions s)\<rparr>))
            = deferred (s\<lparr>sessions := AList.update sid (u\<lparr>status := receiver_disconnected\<rparr>) (sessions s)\<rparr>) @ ys"
        using cleanupSession_prefix by blast
      then show ?thesis by (simp add: begin_stale [OF u ne c True])
    next
      case False
      show ?thesis by (simp add: begin_accepted [OF u ne c False])
    qed
  qed
qed

lemma beginUpload_sessions:
  "sessions (beginUpload cfg now sid s) = sessions (snd (uploadBegin cfg now sid s))"
  by (simp add: beginUpload_def split: sum.splits)

lemma beginUpload_prefix: "\<exists>ys. deferred (beginUpload cfg now sid s) = deferred s @ ys"
proof -
  obtain ys where "deferred (snd (uploadBegin cfg now sid s)) = deferred s @ ys"
    using begin_prefix by blast
  then show ?thesis by (simp add: beginUpload_def split: sum.splits)
qed

lemma writeCaptured_effect:
  assumes "map_of (sessions (writeCaptured captured sid f s)) k = Some session'"
  shows "\<exists>session. map_of (sessions s) k = Some session
           \<and> session' = (if k = sid \<and> objectId session = captured then f session else session)"
proof (cases "map_of (sessions s) sid")
  case None
  then show ?thesis using assms by (auto simp add: writeCaptured_def)
next
  case (Some u)
  show ?thesis
  proof (cases "objectId u = captured")
    case True
    then show ?thesis using assms Some
      by (cases "k = sid") (auto simp add: writeCaptured_def update_conv')
  next
    case False
    then show ?thesis using assms Some by (auto simp add: writeCaptured_def)
  qed
qed

lemma finish_effect:
  assumes "map_of (sessions (snd (finishUpload cfg n uuid data s))) k = Some session'"
  shows "\<exists>session. map_of (sessions s) k = Some session
           \<and> status session' = status session
           \<and> expiresAt session' = expiresAt session
           \<and> objectId session' = objectId session
           \<and> pendingImageIds session' = pendingImageIds session @ uploadedId k (UploadFinish n uuid data) s
           \<and> (imagePaths session' = imagePaths session
               \<or> (\<exists>filename imageBuffer. data = UploadFile filename imageBuffer
                    \<and> imagePaths session' =
                        AList.update (newImageId uuid filename)
                          (path_join (UPLOAD_DIR cfg) (newImageId uuid filename)) (imagePaths session)))"
proof (cases "n < length (deferred s)")
  case False
  then show ?thesis using assms by (cases data) (simp_all add: finishUpload_def uploadsTo_def)
next
  case n: True
  show ?thesis
  proof (cases "pendingUpload (deferred s ! n)")
    case None
    then have no: "\<And>c k'. deferred s ! n \<noteq> UploadPending c k'" by auto
    have "snd (finishUpload cfg n uuid data s) = s"
      using n None by (simp add: finishUpload_def)
    then show ?thesis using assms no by (cases data) (simp_all add: uploadsTo_def)
  next
    case (Some a)
    then obtain captured sid where t: "deferred s ! n = UploadPending captured sid"
      by (cases "deferred s ! n") auto
    have fin: "sessions (snd (finishUpload cfg n uuid data s))
                 = sessions (snd (uploadFinish cfg uuid data captured sid s))"
      using n t by (simp add: finishUpload_def)
    show ?thesis
    proof (cases data)
      case NoFile
      then show ?thesis using assms fin by (simp add: uploadFinish_def)
    next
      case (UploadError limit msg)
      then show ?thesis using assms fin by (cases limit) (simp_all add: uploadFinish_def)
    next
      case (UploadFile filename imageBuffer)
      let ?id = "newImageId uuid filename"
      let ?p = "path_join (UPLOAD_DIR cfg) ?id"
      have "map_of (sessions (writeCaptured captured sid (addImage ?id ?p)
               (s\<lparr>files := writeFile ?p imageBuffer (files s)\<rparr>))) k = Some session'"
        using assms fin UploadFile by (simp add: uploadFinish_def Let_def)
      from writeCaptured_effect [OF this] obtain session where
        l: "map_of (sessions s) k = Some session"
        and e: "session' = (if k = sid \<and> objectId session = captured
                            then addImage ?id ?p session else session)"
        by auto
      have u: "uploadsTo k n s \<longleftrightarrow> (k = sid \<and> objectId session = captured)"
        using n t l by (auto simp add: uploadsTo_def)
      show ?thesis using l e u UploadFile by (auto simp add: addImage_def)
    qed
  qed
qed

lemma fsPerform_sessions: "sessions (fsPerform n fault s) = sessions s"
  by (simp add: fsPerform_def)

lemma resume_effect:
  assumes "map_of (sessions (snd (resume t s))) k = Some session'"
  shows "\<exists>session. map_of (sessions s) k = Some session
           \<and> status session' = status session
           \<and> expiresAt session' = expiresAt session
           \<and> objectId session' = objectId session
           \<and> pendingImageIds session' = pendingImageIds session
           \<and> (imagePaths session' = imagePaths session
               \<or> (\<exists>imageId. imagePaths session' = AList.delete imageId (imagePaths session)))"
proof (cases "\<exists>sid iid p. t = PostSendCleanup (Returned None) sid iid p")
  case False
  then have "snd (resume t s) = s"
    by (induction t s rule: resume.induct) auto
  then show ?thesis using assms by simp
next
  case True
  then obtain sid iid p where t: "t = PostSendCleanup (Returned None) sid iid p" by blast
  show ?thesis
  proof (cases "map_of (sessions s) sid")
    case None
    then show ?thesis using assms t by simp
  next
    case (Some u)
    show ?thesis
    proof (cases "truthy (map_of (imagePaths u) iid)")
      case False
      then show ?thesis using assms t Some by simp
    next
      case True
      then show ?thesis using assms t Some
        by (cases "k = sid") (auto simp add: update_conv')
    qed
  qed
qed

lemma runDeferred_effect:
  assumes "map_of (sessions (runDeferred n s)) k = Some session'"
  shows "\<exists>session. map_of (sessions s) k = Some session
           \<and> status session' = status session
           \<and> expiresAt session' = expiresAt session
           \<and> objectId session' = objectId session
           \<and> pendingImageIds session' = pendingImageIds session
           \<and> (imagePaths session' = imagePaths session
               \<or> (\<exists>imageId. imagePaths session' = AList.delete imageId (imagePaths session)))"
proof (cases "n < length (deferred s)")
  case True
  then have "map_of (sessions (snd (resume (deferred s ! n) s))) k = Some session'"
    using assms by (simp add: runDeferred_def)
  then show ?thesis by (rule resume_effect)
next
  case False
  then show ?thesis using assms by (simp add: runDeferred_def)
qed

subsection \<open>The deadline is read by the poll alone\<close>

lemma connect_ignores_expiresAt:
  assumes "map_of (sessions s) sessionId = Some session"
  shows "fst (connectSender cfg now sessionId (withExpiresAt sessionId session e s))
           = fst (connectSender cfg now sessionId s)"
  using assms by (simp add: connectSender_def withExpiresAt_def update_conv')

lemma begin_ignores_expiresAt:
  assumes "map_of (sessions s) sessionId = Some session"
  shows "fst (uploadBegin cfg now sessionId (withExpiresAt sessionId session e s))
           = fst (uploadBegin cfg now sessionId s)"
  using assms by (simp add: uploadBegin_def withExpiresAt_def update_conv')

lemma upload_ignores_expiresAt:
  assumes "map_of (sessions s) sessionId = Some session"
  shows "fst (uploadImage cfg now uuid sessionId data (withExpiresAt sessionId session e s))
           = fst (uploadImage cfg now uuid sessionId data s)"
proof (cases "fst (uploadBegin cfg now sessionId s)")
  case (Inl r)
  then show ?thesis
    using begin_ignores_expiresAt [OF assms, of cfg now e] by (simp add: uploadImage_def)
next
  case (Inr c)
  then show ?thesis
    using begin_ignores_expiresAt [OF assms, of cfg now e]
    by (simp add: uploadImage_def finish_reply [of cfg uuid data c sessionId _ c sessionId])
qed

lemma fetch_ignores_expiresAt:
  assumes "map_of (sessions s) sessionId = Some session"
  shows "fst (fetchImage sessionId imageId (withExpiresAt sessionId session e s))
           = fst (fetchImage sessionId imageId s)"
  using assms
  by (simp add: fetchImage_def withExpiresAt_def update_conv' Let_def split: sum.splits)

subsection \<open>Only a connect writes the status connected\<close>

lemma step_not_connected:
  assumes "not_connected sessionId s" and "\<not> is_connect sessionId x"
  shows "not_connected sessionId (step cfg x s)"
proof (cases "map_of (sessions (step cfg x s)) sessionId")
  case None
  then show ?thesis by (simp add: not_connected_def)
next
  case (Some session')
  have "status session' \<noteq> connected"
  proof (cases x)
    case (Request now sid url qr)
    then have "map_of (sessions (snd (requestSession cfg now sid url qr s))) sessionId = Some session'"
      using Some by simp
    from request_effect [OF this] show ?thesis using assms(1) by (auto simp add: not_connected_def)
  next
    case (Connect now sid)
    then have "map_of (sessions (snd (connectSender cfg now sid s))) sessionId = Some session'"
      and "sid \<noteq> sessionId"
      using Some assms(2) by auto
    from connect_effect [OF this(1)] this(2) show ?thesis
      using assms(1) by (auto simp add: not_connected_def)
  next
    case (Poll now sid clientType count)
    then have "map_of (sessions (snd (pollStatus cfg now sid clientType count s))) sessionId = Some session'"
      using Some by simp
    from poll_effect [OF this] show ?thesis
      using assms(1) by (auto simp add: not_connected_def touch_not_connected)
  next
    case (UploadBegin now sid)
    then have "map_of (sessions (snd (uploadBegin cfg now sid s))) sessionId = Some session'"
      using Some by (simp add: beginUpload_sessions)
    from begin_effect [OF this] show ?thesis
      using assms(1) by (auto simp add: not_connected_def split: if_splits)
  next
    case (UploadFinish n uuid data)
    then have "map_of (sessions (snd (finishUpload cfg n uuid data s))) sessionId = Some session'"
      using Some by simp
    from finish_effect [OF this] show ?thesis
      using assms(1) by (auto simp add: not_connected_def)
  next
    case (Fetch sid iid)
    then show ?thesis using Some assms(1) by (simp add: fetch_sessions not_connected_def)
  next
    case (Sweep now)
    then have "map_of (sessions (runExpiredSessionCleanup now s)) sessionId = Some session'"
      using Some by simp
    from sweep_session [OF this] show ?thesis using assms(1) by (simp add: not_connected_def)
  next
    case (FsPerform n fault)
    then show ?thesis using Some assms(1) by (simp add: fsPerform_sessions not_connected_def)
  next
    case (RunDeferred n)
    then have "map_of (sessions (runDeferred n s)) sessionId = Some session'"
      using Some by simp
    from runDeferred_effect [OF this] show ?thesis
      using assms(1) by (auto simp add: not_connected_def)
  qed
  then show ?thesis using Some by (simp add: not_connected_def)
qed

lemma run_not_connected:
  assumes "not_connected sessionId s" and "\<forall>x \<in> set ops. \<not> is_connect sessionId x"
  shows "not_connected sessionId (run cfg ops s)"
  using assms
proof (induction ops arbitrary: s)
  case Nil
  then show ?case by simp
next
  case (Cons x xs)
  have "not_connected sessionId (step cfg x s)"
    using Cons.prems by (simp add: step_not_connected)
  then show ?case using Cons by simp
qed

subsection \<open>A receiver poll that is answered\<close>



subsection \<open>The pending queue along a run\<close>



subsection \<open>The deadline along a run\<close>

lemma step_expiresAt:
  assumes "map_of (sessions (step cfg x s)) sessionId = Some session'"
  shows "case extends cfg sessionId x s of
           Some t \<Rightarrow> expiresAt session' = t + SESSION_TIMEOUT_MS cfg
         | None \<Rightarrow> (\<exists>session. map_of (sessions s) sessionId = Some session
                        \<and> expiresAt session' = expiresAt session)"
proof (cases x)
  case (Request now sid url qr)
  then have "map_of (sessions (snd (requestSession cfg now sid url qr s))) sessionId = Some session'"
    using assms by simp
  from request_effect [OF this] show ?thesis using Request by auto
next
  case (Connect now sid)
  then have "map_of (sessions (snd (connectSender cfg now sid s))) sessionId = Some session'"
    using assms by simp
  from connect_effect [OF this] show ?thesis using Connect by auto
next
  case (Poll now sid clientType count)
  then have "map_of (sessions (snd (pollStatus cfg now sid clientType count s))) sessionId = Some session'"
    using assms by simp
  from poll_effect [OF this] show ?thesis
    using Poll by (auto simp add: touch_expiresAt)
next
  case (UploadBegin now sid)
  then have "map_of (sessions (snd (uploadBegin cfg now sid s))) sessionId = Some session'"
    using assms by (simp add: beginUpload_sessions)
  from begin_effect [OF this] show ?thesis using UploadBegin by auto
next
  case (UploadFinish n uuid data)
  then have "map_of (sessions (snd (finishUpload cfg n uuid data s))) sessionId = Some session'"
    using assms by simp
  from finish_effect [OF this] show ?thesis using UploadFinish by auto
next
  case (Fetch sid iid)
  then show ?thesis using assms by (simp add: fetch_sessions)
next
  case (Sweep now)
  then have "map_of (sessions (runExpiredSessionCleanup now s)) sessionId = Some session'"
    using assms by simp
  from sweep_session [OF this] show ?thesis using Sweep by simp
next
  case (FsPerform n fault)
  then show ?thesis using assms by (simp add: fsPerform_sessions)
next
  case (RunDeferred n)
  then have "map_of (sessions (runDeferred n s)) sessionId = Some session'"
    using assms by simp
  from runDeferred_effect [OF this] show ?thesis using RunDeferred by auto
qed

subsection \<open>The entry of an image along a run\<close>

lemma truthy_update_other:
  "k \<noteq> imageId \<Longrightarrow> truthy (map_of (AList.update k v al) imageId) = truthy (map_of al imageId)"
  by (simp add: update_conv')

lemma truthy_delete:
  "\<not> truthy (map_of al imageId) \<Longrightarrow> \<not> truthy (map_of (AList.delete k al) imageId)"
  by (simp add: delete_conv')

lemma step_no_image:
  assumes "no_image sessionId imageId s" and "\<not> reuploads imageId x"
  shows "no_image sessionId imageId (step cfg x s)"
proof (cases "map_of (sessions (step cfg x s)) sessionId")
  case None
  then show ?thesis by (simp add: no_image_def)
next
  case (Some session')
  have "\<not> truthy (map_of (imagePaths session') imageId)"
  proof (cases x)
    case (Request now sid url qr)
    then have "map_of (sessions (snd (requestSession cfg now sid url qr s))) sessionId = Some session'"
      using Some by simp
    from request_effect [OF this] show ?thesis using assms(1) by (auto simp add: no_image_def)
  next
    case (Connect now sid)
    then have "map_of (sessions (snd (connectSender cfg now sid s))) sessionId = Some session'"
      using Some by simp
    from connect_effect [OF this] show ?thesis
      using assms(1) by (auto simp add: no_image_def split: if_splits)
  next
    case (Poll now sid clientType count)
    then have "map_of (sessions (snd (pollStatus cfg now sid clientType count s))) sessionId = Some session'"
      using Some by simp
    from poll_effect [OF this] show ?thesis
      using assms(1) by (auto simp add: no_image_def touch_imagePaths)
  next
    case (UploadBegin now sid)
    then have "map_of (sessions (snd (uploadBegin cfg now sid s))) sessionId = Some session'"
      using Some by (simp add: beginUpload_sessions)
    from begin_effect [OF this] show ?thesis
      using assms(1) by (auto simp add: no_image_def split: if_splits)
  next
    case (UploadFinish n uuid data)
    then have "map_of (sessions (snd (finishUpload cfg n uuid data s))) sessionId = Some session'"
      using Some by simp
    from finish_effect [OF this] obtain session where
      l: "map_of (sessions s) sessionId = Some session"
      and i: "imagePaths session' = imagePaths session
               \<or> (\<exists>filename imageBuffer. data = UploadFile filename imageBuffer
                    \<and> imagePaths session' =
                        AList.update (newImageId uuid filename)
                          (path_join (UPLOAD_DIR cfg) (newImageId uuid filename)) (imagePaths session))"
      by blast
    have n: "\<not> truthy (map_of (imagePaths session) imageId)"
      using assms(1) l by (simp add: no_image_def)
    from i show ?thesis
    proof
      assume "imagePaths session' = imagePaths session"
      then show ?thesis using n by simp
    next
      assume "\<exists>filename imageBuffer. data = UploadFile filename imageBuffer
                    \<and> imagePaths session' =
                        AList.update (newImageId uuid filename)
                          (path_join (UPLOAD_DIR cfg) (newImageId uuid filename)) (imagePaths session)"
      then obtain filename imageBuffer where d: "data = UploadFile filename imageBuffer"
        and e: "imagePaths session' =
                  AList.update (newImageId uuid filename)
                    (path_join (UPLOAD_DIR cfg) (newImageId uuid filename)) (imagePaths session)"
        by blast
      have "newImageId uuid filename \<noteq> imageId"
        using assms(2) UploadFinish d by simp
      then show ?thesis using n e by (simp add: truthy_update_other)
    qed
  next
    case (Fetch sid iid)
    then show ?thesis using Some assms(1) by (simp add: fetch_sessions no_image_def)
  next
    case (Sweep now)
    then have "map_of (sessions (runExpiredSessionCleanup now s)) sessionId = Some session'"
      using Some by simp
    from sweep_session [OF this] show ?thesis using assms(1) by (simp add: no_image_def)
  next
    case (FsPerform n fault)
    then show ?thesis using Some assms(1) by (simp add: fsPerform_sessions no_image_def)
  next
    case (RunDeferred n)
    then have "map_of (sessions (runDeferred n s)) sessionId = Some session'"
      using Some by simp
    from runDeferred_effect [OF this] obtain session where
      l: "map_of (sessions s) sessionId = Some session"
      and i: "imagePaths session' = imagePaths session
               \<or> (\<exists>k. imagePaths session' = AList.delete k (imagePaths session))"
      by blast
    have n: "\<not> truthy (map_of (imagePaths session) imageId)"
      using assms(1) l by (simp add: no_image_def)
    from i show ?thesis using n by (auto simp add: truthy_delete)
  qed
  then show ?thesis using Some by (simp add: no_image_def)
qed

lemma run_no_image:
  assumes "no_image sessionId imageId s" and "\<forall>x \<in> set ops. \<not> reuploads imageId x"
  shows "no_image sessionId imageId (run cfg ops s)"
  using assms
proof (induction ops arbitrary: s)
  case Nil
  then show ?case by simp
next
  case (Cons x xs)
  have "no_image sessionId imageId (step cfg x s)"
    using Cons.prems by (simp add: step_no_image)
  then show ?case using Cons by simp
qed

lemma run_append: "run cfg (xs @ ys) s = run cfg ys (run cfg xs s)"
  by (induction xs arbitrary: s) simp_all

subsection \<open>A suspended task keeps its place\<close>

lemma nth_prefix: "n < length xs \<Longrightarrow> ys = xs @ zs \<Longrightarrow> n < length ys \<and> ys ! n = xs ! n"
  by (simp add: nth_append)

lemma poll_prefix: "\<exists>ys. deferred (snd (pollStatus cfg now sid clientType count s)) = deferred s @ ys"
proof (cases "clientType = Some ''receiver'' \<or> clientType = Some ''sender''")
  case False
  then have "snd (pollStatus cfg now sid clientType count s) = s"
    by (simp add: pollStatus_def)
  then show ?thesis by simp
next
  case valid: True
  show ?thesis
  proof (cases "map_of (sessions s) sid")
    case None
    then have "snd (pollStatus cfg now sid clientType count s) = s"
      by (simp add: pollStatus_def)
    then show ?thesis by simp
  next
    case (Some u)
    show ?thesis
    proof (cases "expiresAt u < now")
      case True
      obtain ys where "deferred (cleanupSession sid
              (s\<lparr>sessions := AList.update sid (touch cfg now clientType u) (sessions s)\<rparr>))
            = deferred (s\<lparr>sessions := AList.update sid (touch cfg now clientType u) (sessions s)\<rparr>) @ ys"
        using cleanupSession_prefix by blast
      then show ?thesis by (simp add: poll_expired [OF Some valid True])
    next
      case False
      then have "deferred (snd (pollStatus cfg now sid clientType count s)) = deferred s"
        using Some valid by (auto simp add: pollStatus_def Let_def touch_expiresAt)
      then show ?thesis by simp
    qed
  qed
qed

lemma request_deferred: "deferred (snd (requestSession cfg now sid url qr s)) = deferred s"
  by (cases qr) (simp_all add: requestSession_def)

lemma connect_deferred: "deferred (snd (connectSender cfg now sid s)) = deferred s"
  by (simp add: connectSender_def split: option.splits)

lemma writeCaptured_deferred: "deferred (writeCaptured captured sid f s) = deferred s"
  by (simp add: writeCaptured_def split: option.splits)

lemma finish_deferred:
  "deferred (snd (finishUpload cfg m uuid data s)) = deferred s
   \<or> (m < length (deferred s) \<and> pendingUpload (deferred s ! m) \<noteq> None
        \<and> deferred (snd (finishUpload cfg m uuid data s)) = (deferred s)[m := Finished])"
  by (auto simp add: finishUpload_def split: option.splits)

lemma perform_returned:
  "perform fault (PostSendCleanup (Returned r) sid iid p) fs = (PostSendCleanup (Returned r) sid iid p, fs)"
  by simp

lemma step_task:
  assumes "n < length (deferred s)"
    and "deferred s ! n = PostSendCleanup (Returned r) sid iid p"
    and "x \<noteq> RunDeferred n"
  shows "n < length (deferred (step cfg x s))
         \<and> deferred (step cfg x s) ! n = PostSendCleanup (Returned r) sid iid p"
proof (cases x)
  case (Request now k url qr)
  then show ?thesis using assms by (simp add: request_deferred)
next
  case (Connect now k)
  then show ?thesis using assms by (simp add: connect_deferred)
next
  case (Poll now k clientType count)
  obtain ys where "deferred (snd (pollStatus cfg now k clientType count s)) = deferred s @ ys"
    using poll_prefix by blast
  from nth_prefix [OF assms(1) this] show ?thesis using Poll assms(2) by simp
next
  case (UploadBegin now k)
  obtain ys where "deferred (beginUpload cfg now k s) = deferred s @ ys"
    using beginUpload_prefix by blast
  from nth_prefix [OF assms(1) this] show ?thesis using UploadBegin assms(2) by simp
next
  case (UploadFinish m uuid data)
  from finish_deferred [of cfg m uuid data s] show ?thesis
  proof
    assume "deferred (snd (finishUpload cfg m uuid data s)) = deferred s"
    then show ?thesis using UploadFinish assms by simp
  next
    assume a: "m < length (deferred s) \<and> pendingUpload (deferred s ! m) \<noteq> None
        \<and> deferred (snd (finishUpload cfg m uuid data s)) = (deferred s)[m := Finished]"
    then have "m \<noteq> n" using assms(2) by auto
    then show ?thesis using UploadFinish assms a by simp
  qed
next
  case (Fetch k i)
  obtain ys where "deferred (snd (fetchImage k i s)) = deferred s @ ys"
    using fetch_prefix by blast
  from nth_prefix [OF assms(1) this] show ?thesis using Fetch assms(2) by simp
next
  case (Sweep now)
  obtain ys where "deferred (runExpiredSessionCleanup now s) = deferred s @ ys"
    unfolding runExpiredSessionCleanup_def using sweep_prefix by blast
  from nth_prefix [OF assms(1) this] show ?thesis using Sweep assms(2) by simp
next
  case (FsPerform m fault)
  show ?thesis
  proof (cases "m = n")
    case True
    then show ?thesis using FsPerform assms by (simp add: fsPerform_def)
  next
    case False
    then show ?thesis using FsPerform assms by (simp add: fsPerform_def)
  qed
next
  case (RunDeferred m)
  then have "m \<noteq> n" using assms(3) by simp
  then show ?thesis using RunDeferred assms by (simp add: runDeferred_def)
qed

lemma cleanup_removes_entry:
  assumes "n < length (deferred s)"
    and "deferred s ! n = PostSendCleanup (Returned None) sessionId imageId p"
  shows "no_image sessionId imageId (runDeferred n s)"
proof (cases "map_of (sessions s) sessionId")
  case None
  then show ?thesis using assms by (simp add: runDeferred_def no_image_def)
next
  case (Some u)
  show ?thesis
  proof (cases "truthy (map_of (imagePaths u) imageId)")
    case True
    then show ?thesis using assms Some
      by (simp add: runDeferred_def no_image_def update_conv' delete_conv')
  next
    case False
    then show ?thesis using assms Some by (simp add: runDeferred_def no_image_def)
  qed
qed

lemma step_cleanup_due:
  assumes "no_image sessionId imageId s
           \<or> (n < length (deferred s)
               \<and> deferred s ! n = PostSendCleanup (Returned None) sessionId imageId p)"
    and "\<not> reuploads imageId x"
  shows "no_image sessionId imageId (step cfg x s)
           \<or> (n < length (deferred (step cfg x s))
               \<and> deferred (step cfg x s) ! n = PostSendCleanup (Returned None) sessionId imageId p)"
proof (cases "no_image sessionId imageId s")
  case True
  then show ?thesis using assms(2) by (simp add: step_no_image)
next
  case False
  then have t: "n < length (deferred s)"
    "deferred s ! n = PostSendCleanup (Returned None) sessionId imageId p"
    using assms(1) by auto
  show ?thesis
  proof (cases "x = RunDeferred n")
    case True
    then show ?thesis using cleanup_removes_entry [OF t] by simp
  next
    case False
    from step_task [OF t False] show ?thesis by simp
  qed
qed

lemma run_cleanup_due:
  assumes "no_image sessionId imageId s
           \<or> (n < length (deferred s)
               \<and> deferred s ! n = PostSendCleanup (Returned None) sessionId imageId p)"
    and "\<forall>x \<in> set ops. \<not> reuploads imageId x"
  shows "no_image sessionId imageId (run cfg ops s)
           \<or> (n < length (deferred (run cfg ops s))
               \<and> deferred (run cfg ops s) ! n = PostSendCleanup (Returned None) sessionId imageId p)"
  using assms
proof (induction ops arbitrary: s)
  case Nil
  then show ?case by simp
next
  case (Cons x xs)
  have "\<not> reuploads imageId x" using Cons.prems(2) by simp
  from step_cleanup_due [OF Cons.prems(1) this]
  have "no_image sessionId imageId (step cfg x s)
           \<or> (n < length (deferred (step cfg x s))
               \<and> deferred (step cfg x s) ! n = PostSendCleanup (Returned None) sessionId imageId p)" .
  moreover have "\<forall>x \<in> set xs. \<not> reuploads imageId x" using Cons.prems(2) by simp
  ultimately show ?case using Cons.IH [of "step cfg x s"] by simp
qed

lemma cleaned_for_good:
  assumes "n < length (deferred s)"
    and "deferred s ! n = PostSendCleanup (Returned None) sessionId imageId p"
    and "\<forall>x \<in> set (before @ after). \<not> reuploads imageId x"
  shows "no_image sessionId imageId (run cfg (before @ RunDeferred n # after) s)"
    and "fst (fst (fetchImage sessionId imageId (run cfg (before @ RunDeferred n # after) s))) = 404"
proof -
  have b: "\<forall>x \<in> set before. \<not> reuploads imageId x" and a: "\<forall>x \<in> set after. \<not> reuploads imageId x"
    using assms(3) by auto
  have "no_image sessionId imageId (run cfg before s)
           \<or> (n < length (deferred (run cfg before s))
               \<and> deferred (run cfg before s) ! n = PostSendCleanup (Returned None) sessionId imageId p)"
    using assms(1,2) b by (intro run_cleanup_due) auto
  then have "no_image sessionId imageId (runDeferred n (run cfg before s))"
  proof
    assume "no_image sessionId imageId (run cfg before s)"
    then have "no_image sessionId imageId (step cfg (RunDeferred n) (run cfg before s))"
      by (rule step_no_image) simp
    then show ?thesis by simp
  next
    assume "n < length (deferred (run cfg before s))
               \<and> deferred (run cfg before s) ! n = PostSendCleanup (Returned None) sessionId imageId p"
    then show ?thesis using cleanup_removes_entry by blast
  qed
  then have "no_image sessionId imageId (run cfg after (runDeferred n (run cfg before s)))"
    using a by (rule run_no_image)
  then show "no_image sessionId imageId (run cfg (before @ RunDeferred n # after) s)"
    by (simp add: run_append)
  then show "fst (fst (fetchImage sessionId imageId (run cfg (before @ RunDeferred n # after) s))) = 404"
    by (rule fetch_no_image)
qed

lemma unlink_performed:
  assumes "n < length (deferred s)"
    and "deferred s ! n = PostSendCleanup Issued sessionId imageId p"
    and "map_of (files s) p \<noteq> None"
  shows "deferred (fsPerform n False s) ! n = PostSendCleanup (Returned None) sessionId imageId p"
    and "map_of (files (fsPerform n False s)) p = None"
  using assms
  by (auto simp add: fsPerform_def performUnlink_def unlink_def delete_conv')

lemma unlinked_for_good:
  assumes "n < length (deferred s)"
    and "deferred s ! n = PostSendCleanup Issued sessionId imageId p"
    and "map_of (files s) p \<noteq> None"
    and "\<forall>x \<in> set (before @ after). \<not> reuploads imageId x"
  shows "no_image sessionId imageId (run cfg (FsPerform n False # before @ RunDeferred n # after) s)"
    and "fst (fst (fetchImage sessionId imageId
           (run cfg (FsPerform n False # before @ RunDeferred n # after) s))) = 404"
proof -
  have l: "n < length (deferred (fsPerform n False s))"
    using assms(1) by (simp add: fsPerform_def)
  note t = unlink_performed(1) [OF assms(1,2,3)]
  show "no_image sessionId imageId (run cfg (FsPerform n False # before @ RunDeferred n # after) s)"
    using cleaned_for_good(1) [OF l t assms(4)] by simp
  show "fst (fst (fetchImage sessionId imageId
           (run cfg (FsPerform n False # before @ RunDeferred n # after) s))) = 404"
    using cleaned_for_good(2) [OF l t assms(4)] by simp
qed

lemma unlink_failed_keeps_entry:
  assumes "n < length (deferred s)"
    and "deferred s ! n = PostSendCleanup (Returned (Some e)) sessionId imageId p"
  shows "sessions (runDeferred n s) = sessions s" and "files (runDeferred n s) = files s"
  using assms by (simp_all add: runDeferred_def)

subsection \<open>Destruction of a session\<close>

lemma cleanupSession_destroyed:
  assumes "map_of (sessions s) sessionId = Some session"
  shows "destroyed sessionId session s (cleanupSession sessionId s)"
  using assms
  by (simp add: destroyed_def cleanupSession_lookup cleanupSession_files cleanupSession_deferred
      split: list.splits)

lemma destroyed_after_update:
  assumes "imagePaths v = imagePaths session"
  shows "destroyed sessionId session s
           (cleanupSession sessionId (s\<lparr>sessions := AList.update sessionId v (sessions s)\<rparr>))"
proof -
  let ?s1 = "s\<lparr>sessions := AList.update sessionId v (sessions s)\<rparr>"
  have "map_of (sessions ?s1) sessionId = Some v" by (simp add: update_conv')
  then have "destroyed sessionId v ?s1 (cleanupSession sessionId ?s1)"
    by (rule cleanupSession_destroyed)
  then show ?thesis using assms
    by (auto simp add: destroyed_def cleanupSession_files split: list.splits)
qed

lemma poll_expired_destroyed:
  assumes "map_of (sessions s) sessionId = Some session"
    and "clientType = Some ''receiver'' \<or> clientType = Some ''sender''"
    and "expiresAt session < now"
  shows "destroyed sessionId session s (snd (pollStatus cfg now sessionId clientType count s))"
  by (simp add: poll_expired [OF assms] destroyed_after_update touch_imagePaths)

lemma begin_stale_destroyed:
  assumes "map_of (sessions s) sessionId = Some session" and "sessionId \<noteq> []"
    and "status session = connected"
    and "now > receiverLastSeen session + SESSION_TIMEOUT_MS cfg"
  shows "destroyed sessionId session s (snd (uploadBegin cfg now sessionId s))"
  by (simp add: begin_stale [OF assms] destroyed_after_update)

lemma sweep_destroyed:
  assumes "map_of (sessions s) sessionId = Some session"
    and "expiresAt session < now"
  shows "destroyed sessionId session s (runExpiredSessionCleanup now s)"
proof -
  have mem: "sessionId \<in> set (map fst (sessions s))"
    using assms(1) by (metis map_of_eq_None_iff option.distinct(1) set_map)
  have gone: "map_of (sessions (sweep now (map fst (sessions s)) s)) sessionId = None"
    using assms mem by (simp add: sweep_lookup)
  show ?thesis
  proof (cases "map snd (imagePaths session)")
    case Nil
    then show ?thesis using gone by (simp add: destroyed_def runExpiredSessionCleanup_def)
  next
    case (Cons imagePath rest)
    from sweep_queues_cleanup [OF assms(1) mem assms(2) Cons]
    show ?thesis using gone Cons
      by (simp add: destroyed_def runExpiredSessionCleanup_def sweep_files)
  qed
qed

subsection \<open>The loop over the paths\<close>

lemma fsPerform_absent:
  assumes "map_of (files s) q = None"
  shows "map_of (files (fsPerform n fault s)) q = None"
proof (cases "n < length (deferred s)")
  case False
  then show ?thesis using assms by (simp add: fsPerform_def)
next
  case True
  have "map_of (snd (performUnlink fault p (files s))) q = None" for p
    using assms by (simp add: performUnlink_def unlink_def delete_conv' split: option.splits)
  then have "map_of (snd (perform fault t (files s))) q = None" for t
    using assms by (induction fault t "files s" rule: perform.induct) simp_all
  then show ?thesis using True by (simp add: fsPerform_def)
qed

lemma resume_files: "files (snd (resume t s)) = files s"
  by (induction t s rule: resume.induct) (simp_all split: option.splits)

lemma runDeferred_files: "files (runDeferred n s) = files s"
  by (simp add: runDeferred_def resume_files)

lemma cleanupSteps_absent:
  assumes "map_of (files s) q = None"
  shows "map_of (files (run cfg (cleanupSteps n faults) s)) q = None"
  using assms
proof (induction faults arbitrary: s)
  case Nil
  then show ?case by simp
next
  case (Cons fault faults)
  have "map_of (files (runDeferred n (fsPerform n fault s))) q = None"
    using Cons.prems by (simp add: runDeferred_files fsPerform_absent)
  then show ?case using Cons.IH by simp
qed

lemma loop_pass:
  assumes "n < length (deferred s)"
    and "deferred s ! n = CleanupFiles Issued imagePath rest"
  shows "n < length (deferred (runDeferred n (fsPerform n fault s)))"
    and "deferred (runDeferred n (fsPerform n fault s)) ! n =
           (case rest of [] \<Rightarrow> Finished | nextPath # others \<Rightarrow> CleanupFiles Issued nextPath others)"
    and "sessions (runDeferred n (fsPerform n fault s)) = sessions s"
    and "\<not> fault \<Longrightarrow> map_of (files (runDeferred n (fsPerform n fault s))) imagePath = None"
proof -
  let ?c = "fst (performUnlink fault imagePath (files s))"
  let ?s1 = "fsPerform n fault s"
  have r: "\<exists>r. ?c = Returned r"
    by (simp add: performUnlink_def split: sum.splits)
  then obtain r where c: "?c = Returned r" by blast
  have t1: "deferred ?s1 ! n = CleanupFiles (Returned r) imagePath rest"
    and l1: "n < length (deferred ?s1)" and s1: "sessions ?s1 = sessions s"
    using assms c by (simp_all add: fsPerform_def)
  show "n < length (deferred (runDeferred n ?s1))"
    using l1 by (simp add: runDeferred_def)
  show "deferred (runDeferred n ?s1) ! n =
           (case rest of [] \<Rightarrow> Finished | nextPath # others \<Rightarrow> CleanupFiles Issued nextPath others)"
    using l1 t1 by (cases rest) (simp_all add: runDeferred_def)
  show "sessions (runDeferred n ?s1) = sessions s"
    using l1 t1 s1 by (cases rest) (simp_all add: runDeferred_def)
  show "map_of (files (runDeferred n ?s1)) imagePath = None" if "\<not> fault"
    using that assms
    by (simp add: runDeferred_files fsPerform_def performUnlink_def unlink_def delete_conv'
        split: option.splits)
qed

lemma cleanup_loop:
  assumes "n < length (deferred s)"
    and "deferred s ! n = CleanupFiles Issued imagePath rest"
    and "length faults = Suc (length rest)"
  shows "deferred (run cfg (cleanupSteps n faults) s) ! n = Finished
         \<and> sessions (run cfg (cleanupSteps n faults) s) = sessions s
         \<and> (\<forall>i < length faults. \<not> faults ! i \<longrightarrow>
               map_of (files (run cfg (cleanupSteps n faults) s)) ((imagePath # rest) ! i) = None)"
  using assms
proof (induction rest arbitrary: imagePath faults s)
  case Nil
  then obtain fault where f: "faults = [fault]"
    by (cases faults) auto
  note p = loop_pass [OF Nil.prems(1) Nil.prems(2), of fault]
  show ?case using p by (simp add: f)
next
  case (Cons nextPath others)
  then obtain fault faults' where f: "faults = fault # faults'" and l: "length faults' = Suc (length others)"
    by (cases faults) auto
  let ?s2 = "runDeferred n (fsPerform n fault s)"
  note p = loop_pass [OF Cons.prems(1) Cons.prems(2), of fault]
  have t2: "deferred ?s2 ! n = CleanupFiles Issued nextPath others" using p(2) by simp
  note ih = Cons.IH [OF p(1) t2 l]
  have first: "map_of (files (run cfg (cleanupSteps n faults') ?s2)) imagePath = None" if "\<not> fault"
    using p(4) [OF that] by (rule cleanupSteps_absent)
  have "\<forall>i < length faults. \<not> faults ! i \<longrightarrow>
          map_of (files (run cfg (cleanupSteps n faults) s)) ((imagePath # nextPath # others) ! i) = None"
  proof (intro allI impI)
    fix i
    assume i: "i < length faults" and nf: "\<not> faults ! i"
    show "map_of (files (run cfg (cleanupSteps n faults) s)) ((imagePath # nextPath # others) ! i) = None"
    proof (cases i)
      case 0
      then show ?thesis using first nf f by simp
    next
      case (Suc j)
      then have "j < length faults'" and "\<not> faults' ! j" using i nf f by simp_all
      then show ?thesis using ih Suc f by simp
    qed
  qed
  then show ?case using ih p(3) f by simp
qed

subsection \<open>The loop in a run with other steps in between\<close>

lemma performUnlink_returned: "\<exists>r. fst (performUnlink fault p fs) = Returned r"
  by (simp add: performUnlink_def split: sum.splits)

lemma perform_todo: "map fst (map (\<lambda>p. (p, fault)) (unlinking t)) @ todo (fst (perform fault t fs)) = todo t"
proof (cases t)
  case (CleanupFiles c p rest)
  obtain r where "fst (performUnlink fault p fs) = Returned r"
    using performUnlink_returned by blast
  then show ?thesis using CleanupFiles by (cases c) simp_all
next
  case (PostSendCleanup c sid iid p)
  obtain r where "fst (performUnlink fault p fs) = Returned r"
    using performUnlink_returned by blast
  then show ?thesis using PostSendCleanup by (cases c) simp_all
qed simp_all

lemma resume_todo: "todo (fst (resume t s)) = todo t"
  by (induction t s rule: resume.induct) simp_all

lemma step_todo:
  assumes "n < length (deferred s)"
  shows "n < length (deferred (step cfg x s))
         \<and> map fst (attempt n x s) @ todo (deferred (step cfg x s) ! n) = todo (deferred s ! n)"
proof (cases x)
  case (Request now k url qr)
  then show ?thesis using assms by (simp add: request_deferred)
next
  case (Connect now k)
  then show ?thesis using assms by (simp add: connect_deferred)
next
  case (Poll now k clientType count)
  obtain ys where "deferred (snd (pollStatus cfg now k clientType count s)) = deferred s @ ys"
    using poll_prefix by blast
  from nth_prefix [OF assms this] show ?thesis using Poll by simp
next
  case (UploadBegin now k)
  obtain ys where "deferred (beginUpload cfg now k s) = deferred s @ ys"
    using beginUpload_prefix by blast
  from nth_prefix [OF assms this] show ?thesis using UploadBegin by simp
next
  case (UploadFinish m uuid data)
  from finish_deferred [of cfg m uuid data s] show ?thesis
  proof
    assume "deferred (snd (finishUpload cfg m uuid data s)) = deferred s"
    then show ?thesis using UploadFinish assms by simp
  next
    assume a: "m < length (deferred s) \<and> pendingUpload (deferred s ! m) \<noteq> None
        \<and> deferred (snd (finishUpload cfg m uuid data s)) = (deferred s)[m := Finished]"
    show ?thesis
    proof (cases "m = n")
      case True
      then have "pendingUpload (deferred s ! n) \<noteq> None" using a by simp
      then have "todo (deferred s ! n) = []" by (cases "deferred s ! n") simp_all
      then show ?thesis using UploadFinish assms a True by simp
    next
      case False
      then show ?thesis using UploadFinish assms a by simp
    qed
  qed
next
  case (Fetch k i)
  obtain ys where "deferred (snd (fetchImage k i s)) = deferred s @ ys"
    using fetch_prefix by blast
  from nth_prefix [OF assms this] show ?thesis using Fetch by simp
next
  case (Sweep now)
  obtain ys where "deferred (runExpiredSessionCleanup now s) = deferred s @ ys"
    unfolding runExpiredSessionCleanup_def using sweep_prefix by blast
  from nth_prefix [OF assms this] show ?thesis using Sweep by simp
next
  case (FsPerform m fault)
  show ?thesis
  proof (cases "m = n")
    case True
    then show ?thesis using FsPerform assms perform_todo [of fault "deferred s ! n" "files s"]
      by (simp add: fsPerform_def)
  next
    case False
    then show ?thesis using FsPerform assms by (simp add: fsPerform_def)
  qed
next
  case (RunDeferred m)
  show ?thesis
  proof (cases "m = n")
    case True
    then show ?thesis using RunDeferred assms by (simp add: runDeferred_def resume_todo)
  next
    case False
    then show ?thesis using RunDeferred assms by (simp add: runDeferred_def)
  qed
qed

lemma run_todo:
  assumes "n < length (deferred s)"
  shows "n < length (deferred (run cfg ops s))
         \<and> map fst (attempts cfg n ops s) @ todo (deferred (run cfg ops s) ! n) = todo (deferred s ! n)"
  using assms
proof (induction ops arbitrary: s)
  case Nil
  then show ?case by simp
next
  case (Cons x xs)
  from step_todo [OF Cons.prems, of cfg x]
  have l: "n < length (deferred (step cfg x s))"
    and e: "map fst (attempt n x s) @ todo (deferred (step cfg x s) ! n) = todo (deferred s ! n)"
    by simp_all
  from Cons.IH [OF l] show ?case using e by simp
qed

lemma poll_files: "files (snd (pollStatus cfg now sid clientType count s)) = files s"
proof (cases "clientType = Some ''receiver'' \<or> clientType = Some ''sender''")
  case False
  then show ?thesis by (simp add: pollStatus_def)
next
  case valid: True
  show ?thesis
  proof (cases "map_of (sessions s) sid")
    case None
    then show ?thesis by (simp add: pollStatus_def)
  next
    case (Some u)
    show ?thesis
    proof (cases "expiresAt u < now")
      case True
      show ?thesis by (simp add: poll_expired [OF Some valid True] cleanupSession_files)
    next
      case False
      then show ?thesis using Some valid by (auto simp add: pollStatus_def Let_def touch_expiresAt)
    qed
  qed
qed

lemma begin_files: "files (snd (uploadBegin cfg now sid s)) = files s"
proof (cases "sid = []")
  case True
  then show ?thesis by (simp add: uploadBegin_def)
next
  case ne: False
  show ?thesis
  proof (cases "map_of (sessions s) sid")
    case None
    then show ?thesis using ne by (simp add: uploadBegin_def)
  next
    case (Some u)
    show ?thesis
    proof (cases "status u = connected")
      case False
      then show ?thesis using Some ne by (simp add: uploadBegin_def)
    next
      case c: True
      show ?thesis
      proof (cases "now > receiverLastSeen u + SESSION_TIMEOUT_MS cfg")
        case True
        show ?thesis by (simp add: begin_stale [OF Some ne c True] cleanupSession_files)
      next
        case False
        show ?thesis by (simp add: begin_accepted [OF Some ne c False])
      qed
    qed
  qed
qed

lemma beginUpload_files: "files (beginUpload cfg now sid s) = files s"
  by (simp add: beginUpload_def begin_files split: sum.splits)

lemma writeCaptured_files: "files (writeCaptured captured sid f s) = files s"
  by (simp add: writeCaptured_def split: option.splits)

lemma finish_absent:
  assumes "map_of (files s) q = None" and "\<not> writes cfg q (UploadFinish m uuid data)"
  shows "map_of (files (snd (finishUpload cfg m uuid data s))) q = None"
proof (cases "m < length (deferred s)")
  case False
  then show ?thesis using assms by (simp add: finishUpload_def)
next
  case True
  show ?thesis
  proof (cases "pendingUpload (deferred s ! m)")
    case None
    then show ?thesis using assms True by (simp add: finishUpload_def)
  next
    case (Some c)
    obtain captured sid where c: "c = (captured, sid)" by (cases c)
    show ?thesis
    proof (cases data)
      case NoFile
      then show ?thesis using assms True Some c by (simp add: finishUpload_def uploadFinish_def)
    next
      case (UploadError limit msg)
      then show ?thesis using assms True Some c
        by (cases limit) (simp_all add: finishUpload_def uploadFinish_def)
    next
      case (UploadFile filename imageBuffer)
      then show ?thesis using assms True Some c
        by (simp add: finishUpload_def uploadFinish_def Let_def writeCaptured_files writeFile_def
            update_conv')
    qed
  qed
qed

lemma fetch_files: "files (snd (fetchImage sid iid s)) = files s"
proof (cases "sid = [] \<or> map_of (sessions s) sid = None")
  case True
  then show ?thesis by (simp add: fetch_no_session)
next
  case False
  then obtain u where u: "map_of (sessions s) sid = Some u" and ne: "sid \<noteq> []" by auto
  show ?thesis
  proof (cases "truthy (map_of (imagePaths u) iid)")
    case False
    then show ?thesis using u ne by (simp add: fetchImage_def)
  next
    case True
    then show ?thesis using u ne
      by (cases "readFile (the (map_of (imagePaths u) iid)) (files s)")
        (simp_all add: fetchImage_def Let_def)
  qed
qed

lemma request_files: "files (snd (requestSession cfg now sid url qr s)) = files s"
  by (cases qr) (simp_all add: requestSession_def)

lemma connect_files: "files (snd (connectSender cfg now sid s)) = files s"
  by (simp add: connectSender_def split: option.splits)

lemma step_absent:
  assumes "map_of (files s) q = None" and "\<not> writes cfg q x"
  shows "map_of (files (step cfg x s)) q = None"
proof (cases x)
  case (UploadFinish m uuid data)
  then show ?thesis using assms finish_absent by simp
next
  case (FsPerform m fault)
  then show ?thesis using assms by (simp add: fsPerform_absent)
qed (use assms in \<open>simp_all add: request_files connect_files poll_files beginUpload_files
       fetch_files runExpiredSessionCleanup_def sweep_files runDeferred_files\<close>)

lemma run_absent:
  assumes "map_of (files s) q = None" and "\<forall>x \<in> set ops. \<not> writes cfg q x"
  shows "map_of (files (run cfg ops s)) q = None"
  using assms
proof (induction ops arbitrary: s)
  case Nil
  then show ?case by simp
next
  case (Cons x xs)
  have "map_of (files (step cfg x s)) q = None"
    using Cons.prems by (simp add: step_absent)
  then show ?case using Cons by simp
qed

lemma attempt_absent:
  assumes "(q, False) \<in> set (attempt n x s)"
  shows "map_of (files (step cfg x s)) q = None"
proof (cases x)
  case (FsPerform m fault)
  then have m: "m = n" and l: "n < length (deferred s)"
    and u: "(q, False) \<in> set (map (\<lambda>p. (p, fault)) (unlinking (deferred s ! n)))"
    using assms by (simp_all split: if_splits)
  then have f: "\<not> fault" by auto
  from u obtain rest where t: "deferred s ! n = CleanupFiles Issued q rest"
    by (cases "deferred s ! n" rule: unlinking.cases) auto
  show ?thesis using FsPerform m l t f
    by (simp add: fsPerform_def performUnlink_def unlink_def delete_conv' split: option.splits)
qed (use assms in simp_all)

lemma attempts_absent:
  assumes "(q, False) \<in> set (attempts cfg n ops s)" and "\<forall>x \<in> set ops. \<not> writes cfg q x"
  shows "map_of (files (run cfg ops s)) q = None"
  using assms
proof (induction ops arbitrary: s)
  case Nil
  then show ?case by simp
next
  case (Cons x xs)
  have w: "\<forall>x \<in> set xs. \<not> writes cfg q x" using Cons.prems(2) by simp
  from Cons.prems(1) have "(q, False) \<in> set (attempt n x s)
      \<or> (q, False) \<in> set (attempts cfg n xs (step cfg x s))" by simp
  then show ?case
  proof
    assume "(q, False) \<in> set (attempt n x s)"
    then have "map_of (files (step cfg x s)) q = None" by (rule attempt_absent)
    then have "map_of (files (run cfg xs (step cfg x s))) q = None" using w by (rule run_absent)
    then show ?thesis by simp
  next
    assume "(q, False) \<in> set (attempts cfg n xs (step cfg x s))"
    from Cons.IH [OF this w] show ?thesis by simp
  qed
qed

lemma loop_finished:
  assumes "n < length (deferred s)"
    and "deferred s ! n = CleanupFiles Issued imagePath rest"
    and "deferred (run cfg ops s) ! n = Finished"
  shows "map fst (attempts cfg n ops s) = imagePath # rest"
  using run_todo [OF assms(1), of cfg ops] assms(2,3) by simp

subsection \<open>An upload in flight when its session is destroyed\<close>

text \<open>
  An upload has passed the checks on its session and waits for its file; the background task
  finds the session expired and destroys it; the upload then writes its file and is answered
  200. The file is in no imagePaths that a clean-up reads.
\<close>

lemma upload_in_flight_outlives_session:
  "run cfg0 [UploadBegin 2000 ''s'', Sweep 200000] srv2
     = \<lparr>sessions = [], files = [], deferred = [UploadPending 0 ''s''], nextObjectId = 1\<rparr>
   \<and> finishUpload cfg0 0 ''u1'' (UploadFile (Some ''cat.jpg'') [7])
        (run cfg0 [UploadBegin 2000 ''s'', Sweep 200000] srv2)
     = (Some (200, UploadOk ''cat.jpg''),
        \<lparr>sessions = [], files = [(''up/u1-cat.jpg'', [7])], deferred = [Finished], nextObjectId = 1\<rparr>)"
  by (simp add: eval_defs srv2_def sess2_def)

section \<open>Properties\<close>

text \<open>
  C1, as the code has it. An image fetch answered 200 with the stored bytes issues the
  \<^verbatim>\<open>unlink\<close> of the file and changes nothing else. A fetch with the same session id and
  image id that follows directly is answered 200 with the same bytes again. When the
  operating system then carries the \<^verbatim>\<open>unlink\<close> out, the file is gone and a fetch is
  answered 404; when the call meets a failure instead and the callback goes on, a fetch is
  answered 200 with the bytes once more. For every callback of the image handler whose
  \<^verbatim>\<open>unlink\<close> is issued on a file that is there: once the operating system has carried the
  \<^verbatim>\<open>unlink\<close> out and the callback has gone on, whatever steps are taken between the two and
  after, the session has no entry for the image id and a fetch is answered 404, as long as
  no upload generates the same image id again.
\<close>

theorem fetch_again_until_unlinked:
  assumes "fetchImage sessionId imageId s = ((200, ImageData b), s1)"
  shows "\<exists>imagePath.
           s1 = s\<lparr>deferred := deferred s @ [PostSendCleanup Issued sessionId imageId imagePath]\<rparr>
           \<and> map_of (files s1) imagePath = Some b
           \<and> fst (fetchImage sessionId imageId s1) = (200, ImageData b)
           \<and> map_of (files (fsPerform (length (deferred s)) False s1)) imagePath = None
           \<and> fst (fst (fetchImage sessionId imageId (fsPerform (length (deferred s)) False s1))) = 404
           \<and> fst (fetchImage sessionId imageId
                  (runDeferred (length (deferred s)) (fsPerform (length (deferred s)) True s1)))
               = (200, ImageData b)
           \<and> (\<forall>s' n p before after.
                 n < length (deferred s')
                 \<and> deferred s' ! n = PostSendCleanup Issued sessionId imageId p
                 \<and> map_of (files s') p \<noteq> None
                 \<and> (\<forall>x \<in> set (before @ after). \<not> reuploads imageId x)
                 \<longrightarrow> no_image sessionId imageId
                       (run cfg (FsPerform n False # before @ RunDeferred n # after) s')
                     \<and> fst (fst (fetchImage sessionId imageId
                            (run cfg (FsPerform n False # before @ RunDeferred n # after) s'))) = 404)"
proof -
  from fetch_ok [OF assms] obtain u p where
    ne: "sessionId \<noteq> []"
    and u: "map_of (sessions s) sessionId = Some u"
    and p: "map_of (imagePaths u) imageId = Some p" and pn: "p \<noteq> []"
    and f: "map_of (files s) p = Some b"
    and s1: "s1 = s\<lparr>deferred := deferred s @ [PostSendCleanup Issued sessionId imageId p]\<rparr>"
    by blast
  let ?n = "length (deferred s)"
  have l: "?n < length (deferred s1)"
    and t: "deferred s1 ! ?n = PostSendCleanup Issued sessionId imageId p"
    and u1: "map_of (sessions s1) sessionId = Some u"
    and f1: "map_of (files s1) p = Some b"
    using u f by (simp_all add: s1)
  have again: "fst (fetchImage sessionId imageId s1) = (200, ImageData b)"
    using ne u1 p pn f1 by (rule fetch_again)
  have gone: "map_of (files (fsPerform ?n False s1)) p = None"
    using l t f1 by (simp add: unlink_performed(2))
  have "map_of (sessions (fsPerform ?n False s1)) sessionId = Some u"
    using u1 by (simp add: fsPerform_sessions)
  then have missing: "fst (fst (fetchImage sessionId imageId (fsPerform ?n False s1))) = 404"
    using ne p pn gone by (simp add: fetchImage_def readFile_def)
  have t2: "deferred (fsPerform ?n True s1) ! ?n
              = PostSendCleanup (Returned (Some EOTHER)) sessionId imageId p"
    and l2: "?n < length (deferred (fsPerform ?n True s1))"
    and f2: "files (fsPerform ?n True s1) = files s1"
    using l t by (simp_all add: fsPerform_def performUnlink_def unlink_def)
  have "map_of (sessions (runDeferred ?n (fsPerform ?n True s1))) sessionId = Some u"
    and "map_of (files (runDeferred ?n (fsPerform ?n True s1))) p = Some b"
    using unlink_failed_keeps_entry [OF l2 t2] u1 f1 f2 by (simp_all add: fsPerform_sessions)
  then have kept: "fst (fetchImage sessionId imageId (runDeferred ?n (fsPerform ?n True s1)))
                     = (200, ImageData b)"
    using ne p pn by (simp add: fetch_again)
  have later: "\<forall>s' n p before after.
                 n < length (deferred s')
                 \<and> deferred s' ! n = PostSendCleanup Issued sessionId imageId p
                 \<and> map_of (files s') p \<noteq> None
                 \<and> (\<forall>x \<in> set (before @ after). \<not> reuploads imageId x)
                 \<longrightarrow> no_image sessionId imageId
                       (run cfg (FsPerform n False # before @ RunDeferred n # after) s')
                     \<and> fst (fst (fetchImage sessionId imageId
                            (run cfg (FsPerform n False # before @ RunDeferred n # after) s'))) = 404"
    using unlinked_for_good by blast
  show ?thesis using s1 f1 again gone missing kept later by blast
qed

theorem fetch_twice_counterexample:
  "fst (fetchImage ''s'' ''a'' srv0) = (200, ImageData [1, 2, 3])
   \<and> fst (fetchImage ''s'' ''a'' (snd (fetchImage ''s'' ''a'' srv0))) = (200, ImageData [1, 2, 3])
   \<and> fst (fetchImage ''s'' ''a'' (run cfg0 [Fetch ''s'' ''a'', FsPerform 0 True, RunDeferred 0] srv0))
       = (200, ImageData [1, 2, 3])"
  by (simp add: eval_defs srv0_def sess0_def)

theorem fetch_again_until_unlinked_witness:
  "fetchImage ''s'' ''a'' srv0 = ((200, ImageData [1, 2, 3]), srv0_fetched)
   \<and> map_of (files srv0_fetched) ''up/a'' = Some [1, 2, 3]
   \<and> fst (fetchImage ''s'' ''a'' srv0_fetched) = (200, ImageData [1, 2, 3])
   \<and> fsPerform 0 False srv0_fetched = srv0_unlinked
   \<and> map_of (files srv0_unlinked) ''up/a'' = None
   \<and> fst (fst (fetchImage ''s'' ''a'' srv0_unlinked)) = 404
   \<and> fst (fetchImage ''s'' ''a'' (runDeferred 0 (fsPerform 0 True srv0_fetched)))
       = (200, ImageData [1, 2, 3])
   \<and> 0 < length (deferred srv0_fetched)
   \<and> deferred srv0_fetched ! 0 = PostSendCleanup Issued ''s'' ''a'' ''up/a''
   \<and> map_of (files srv0_fetched) ''up/a'' \<noteq> None
   \<and> \<not> (\<exists>x \<in> set ([Fetch ''s'' ''a''] @ ops5). reuploads ''a'' x)
   \<and> no_image ''s'' ''a''
        (run cfg0 (FsPerform 0 False # [Fetch ''s'' ''a''] @ RunDeferred 0 # ops5) srv0_fetched)
   \<and> fst (fst (fetchImage ''s'' ''a''
         (run cfg0 (FsPerform 0 False # [Fetch ''s'' ''a''] @ RunDeferred 0 # ops5) srv0_fetched))) = 404"
proof -
  have e: "fetchImage ''s'' ''a'' srv0 = ((200, ImageData [1, 2, 3]), srv0_fetched)"
    by (simp add: eval_defs srv0_def sess0_def srv0_fetched_def)
  have l: "length (deferred srv0) = 0" by (simp add: srv0_def)
  have p: "fsPerform 0 False srv0_fetched = srv0_unlinked"
    by (simp add: eval_defs srv0_def sess0_def srv0_fetched_def srv0_unlinked_def)
  have t: "0 < length (deferred srv0_fetched)"
    "deferred srv0_fetched ! 0 = PostSendCleanup Issued ''s'' ''a'' ''up/a''"
    "map_of (files srv0_fetched) ''up/a'' \<noteq> None"
    by (simp_all add: srv0_fetched_def srv0_def)
  have q: "\<forall>x \<in> set ([Fetch ''s'' ''a''] @ ops5). \<not> reuploads ''a'' x"
    by (simp add: ops5_def newImageId_def)
  from fetch_again_until_unlinked [OF e, where cfg = cfg0] obtain imagePath where
    a: "srv0_fetched = srv0\<lparr>deferred := deferred srv0 @ [PostSendCleanup Issued ''s'' ''a'' imagePath]\<rparr>"
    and f: "map_of (files srv0_fetched) imagePath = Some [1, 2, 3]"
    and b: "fst (fetchImage ''s'' ''a'' srv0_fetched) = (200, ImageData [1, 2, 3])"
    and c: "map_of (files (fsPerform (length (deferred srv0)) False srv0_fetched)) imagePath = None"
    and d: "fst (fst (fetchImage ''s'' ''a'' (fsPerform (length (deferred srv0)) False srv0_fetched))) = 404"
    and k: "fst (fetchImage ''s'' ''a''
                  (runDeferred (length (deferred srv0)) (fsPerform (length (deferred srv0)) True srv0_fetched)))
               = (200, ImageData [1, 2, 3])"
    and g: "\<forall>s' n p before after.
                 n < length (deferred s')
                 \<and> deferred s' ! n = PostSendCleanup Issued ''s'' ''a'' p
                 \<and> map_of (files s') p \<noteq> None
                 \<and> (\<forall>x \<in> set (before @ after). \<not> reuploads ''a'' x)
                 \<longrightarrow> no_image ''s'' ''a''
                       (run cfg0 (FsPerform n False # before @ RunDeferred n # after) s')
                     \<and> fst (fst (fetchImage ''s'' ''a''
                            (run cfg0 (FsPerform n False # before @ RunDeferred n # after) s'))) = 404"
    by blast
  have i: "imagePath = ''up/a''"
    using a by (simp add: srv0_fetched_def srv0_def)
  have final: "no_image ''s'' ''a''
        (run cfg0 (FsPerform 0 False # [Fetch ''s'' ''a''] @ RunDeferred 0 # ops5) srv0_fetched)
      \<and> fst (fst (fetchImage ''s'' ''a''
         (run cfg0 (FsPerform 0 False # [Fetch ''s'' ''a''] @ RunDeferred 0 # ops5) srv0_fetched))) = 404"
    using g t q by blast
  show ?thesis
    using e f b c d k t q final unfolding l p i by simp
qed

text \<open>
  C2, as the code has it. Only the poll handler reads the deadline: a poll on a session with
  expiresAt < now is answered 404 and the session is removed from the store. The replies of
  connect, upload and image fetch are the same whatever expiresAt holds, so on a session
  whose deadline has passed and that is still in the store they answer as on any other.
\<close>

theorem deadline_checked_by_poll_only:
  assumes "map_of (sessions s) sessionId = Some session"
    and "expiresAt session < now"
  shows "(clientType = Some ''receiver'' \<or> clientType = Some ''sender'' \<longrightarrow>
            fst (pollStatus cfg now sessionId clientType count s) = (404, Failure ''Session expired.'')
            \<and> map_of (sessions (snd (pollStatus cfg now sessionId clientType count s))) sessionId = None)
       \<and> fst (connectSender cfg now sessionId (withExpiresAt sessionId session e s))
           = fst (connectSender cfg now sessionId s)
       \<and> fst (uploadImage cfg now uuid sessionId data (withExpiresAt sessionId session e s))
           = fst (uploadImage cfg now uuid sessionId data s)
       \<and> fst (fetchImage sessionId imageId (withExpiresAt sessionId session e s))
           = fst (fetchImage sessionId imageId s)"
proof (intro conjI impI)
  assume c: "clientType = Some ''receiver'' \<or> clientType = Some ''sender''"
  note eq = poll_expired [OF assms(1) c assms(2), of cfg count]
  show "fst (pollStatus cfg now sessionId clientType count s) = (404, Failure ''Session expired.'')"
    by (simp add: eq)
  show "map_of (sessions (snd (pollStatus cfg now sessionId clientType count s))) sessionId = None"
    by (simp add: eq cleanupSession_lookup)
next
  show "fst (connectSender cfg now sessionId (withExpiresAt sessionId session e s))
           = fst (connectSender cfg now sessionId s)"
    using assms(1) by (rule connect_ignores_expiresAt)
next
  show "fst (uploadImage cfg now uuid sessionId data (withExpiresAt sessionId session e s))
           = fst (uploadImage cfg now uuid sessionId data s)"
    using assms(1) by (rule upload_ignores_expiresAt)
next
  show "fst (fetchImage sessionId imageId (withExpiresAt sessionId session e s))
           = fst (fetchImage sessionId imageId s)"
    using assms(1) by (rule fetch_ignores_expiresAt)
qed

theorem deadline_precedence_counterexample:
  "map_of (sessions srv1) ''s'' = Some sess1 \<and> expiresAt sess1 < 121500
   \<and> fst (connectSender cfg0 121500 ''s'' srv1) = (200, SenderConnected ''s'' 120000 2000)
   \<and> map_of (sessions (snd (connectSender cfg0 121500 ''s'' srv1))) ''s''
        = Some (sess1\<lparr>status := connected, senderLastSeen := 121500, expiresAt := 241500\<rparr>)
   \<and> map_of (sessions srv3) ''s'' = Some sess3 \<and> expiresAt sess3 < 121500
   \<and> fst (uploadImage cfg0 121500 ''u1'' ''s'' (UploadFile (Some ''cat.jpg'') [7]) srv3)
        = (200, UploadOk ''cat.jpg'')
   \<and> fst (fetchImage ''s'' ''a'' srv3) = (200, ImageData [1, 2, 3])"
  by (simp add: eval_defs srv1_def sess1_def srv3_def sess3_def)

theorem deadline_checked_by_poll_only_witness:
  "map_of (sessions srv3) ''s'' = Some sess3 \<and> expiresAt sess3 < 121500
   \<and> fst (pollStatus cfg0 121500 ''s'' (Some ''sender'') 0 srv3) = (404, Failure ''Session expired.'')
   \<and> map_of (sessions (snd (pollStatus cfg0 121500 ''s'' (Some ''sender'') 0 srv3))) ''s'' = None
   \<and> fst (connectSender cfg0 121500 ''s'' (withExpiresAt ''s'' sess3 500000 srv3))
           = fst (connectSender cfg0 121500 ''s'' srv3)
   \<and> fst (uploadImage cfg0 121500 ''u1'' ''s'' NoFile (withExpiresAt ''s'' sess3 500000 srv3))
           = fst (uploadImage cfg0 121500 ''u1'' ''s'' NoFile srv3)
   \<and> fst (fetchImage ''s'' ''a'' (withExpiresAt ''s'' sess3 500000 srv3))
           = fst (fetchImage ''s'' ''a'' srv3)"
proof -
  have h1: "map_of (sessions srv3) ''s'' = Some sess3" by (simp add: srv3_def)
  have h2: "expiresAt sess3 < 121500" by (simp add: sess3_def)
  show ?thesis
    using h1 h2
      deadline_checked_by_poll_only [OF h1 h2, of "Some ''sender''" cfg0 0 500000 "''u1''" NoFile "''a''"]
    by simp
qed

text \<open>
  C3, as the code has it. Three steps write \<^verbatim>\<open>expiresAt\<close>, each with the clock value it
  reads plus \<^verbatim>\<open>SESSION_TIMEOUT_MS\<close>: the session request that stores the session, a connect
  answered 200, and the first stretch of an upload that passes the checks on the session,
  whatever the upload is answered in the end. No poll and no other step writes it. So after
  any run, a session that is in the store has \<^verbatim>\<open>expiresAt\<close> equal to the clock value of the
  last of these steps of the run on its id plus \<^verbatim>\<open>SESSION_TIMEOUT_MS\<close>, and unchanged when
  the run has no such step.
\<close>

theorem expiresAt_from_last_extension:
  assumes "map_of (sessions (run cfg ops s)) sessionId = Some session'"
  shows "case lastExtend cfg sessionId ops s of
           Some t \<Rightarrow> expiresAt session' = t + SESSION_TIMEOUT_MS cfg
         | None \<Rightarrow> (\<exists>session. map_of (sessions s) sessionId = Some session
                        \<and> expiresAt session' = expiresAt session)"
  using assms
proof (induction ops arbitrary: s)
  case Nil
  then show ?case by simp
next
  case (Cons x xs)
  have r: "map_of (sessions (run cfg xs (step cfg x s))) sessionId = Some session'"
    using Cons.prems by simp
  note ih = Cons.IH [OF r]
  show ?case
  proof (cases "lastExtend cfg sessionId xs (step cfg x s)")
    case (Some t)
    then show ?thesis using ih by simp
  next
    case None
    then obtain mid where mid: "map_of (sessions (step cfg x s)) sessionId = Some mid"
      and e: "expiresAt session' = expiresAt mid"
      using ih by auto
    from step_expiresAt [OF mid] show ?thesis using None e
      by (cases "extends cfg sessionId x s") auto
  qed
qed

theorem expiresAt_invariant_counterexample:
  "map_of (sessions srv0) ''s'' = Some sess0
   \<and> fst (fst (pollStatus cfg0 100000 ''s'' (Some ''receiver'') 0 srv0)) = 200
   \<and> map_of (sessions (snd (pollStatus cfg0 100000 ''s'' (Some ''receiver'') 0 srv0))) ''s''
        = Some (sess0\<lparr>receiverLastSeen := 100000, status := sender_disconnected, pendingImageIds := []\<rparr>)
   \<and> expiresAt (sess0\<lparr>receiverLastSeen := 100000, status := sender_disconnected, pendingImageIds := []\<rparr>) = 121000
   \<and> \<not> (121000 \<ge> 100000 + SESSION_TIMEOUT_MS cfg0)"
  by (simp add: srv0_def sess0_def cfg0_def pollStatus_def touch_def Let_def)

theorem expiresAt_from_last_extension_witness:
  "map_of (sessions (run cfg0 ops3 srv2)) ''s'' = Some sess7
   \<and> lastExtend cfg0 ''s'' ops3 srv2 = Some 6100
   \<and> fst (finishUpload cfg0 0 ''u1'' NoFile
        (run cfg0 [UploadBegin 6100 ''s'', Poll 6200 ''s'' (Some ''sender'') 0] srv2))
       = Some (400, Failure ''No file uploaded.'')
   \<and> expiresAt sess7 = 6100 + SESSION_TIMEOUT_MS cfg0
   \<and> map_of (sessions (run cfg0 [Poll 100000 ''s'' (Some ''receiver'') 0] srv0)) ''s''
       = Some (sess0\<lparr>receiverLastSeen := 100000, status := sender_disconnected, pendingImageIds := []\<rparr>)
   \<and> lastExtend cfg0 ''s'' [Poll 100000 ''s'' (Some ''receiver'') 0] srv0 = None
   \<and> map_of (sessions srv0) ''s'' = Some sess0
   \<and> expiresAt (sess0\<lparr>receiverLastSeen := 100000, status := sender_disconnected, pendingImageIds := []\<rparr>)
       = expiresAt sess0"
proof -
  have h1: "map_of (sessions (run cfg0 ops3 srv2)) ''s'' = Some sess7"
    by (simp add: eval_defs ops3_def srv2_def sess2_def sess7_def)
  have h2: "lastExtend cfg0 ''s'' ops3 srv2 = Some 6100"
    by (simp add: eval_defs ops3_def srv2_def sess2_def)
  have h3: "fst (finishUpload cfg0 0 ''u1'' NoFile
        (run cfg0 [UploadBegin 6100 ''s'', Poll 6200 ''s'' (Some ''sender'') 0] srv2))
       = Some (400, Failure ''No file uploaded.'')"
    by (simp add: eval_defs srv2_def sess2_def)
  have h4: "map_of (sessions (run cfg0 [Poll 100000 ''s'' (Some ''receiver'') 0] srv0)) ''s''
       = Some (sess0\<lparr>receiverLastSeen := 100000, status := sender_disconnected, pendingImageIds := []\<rparr>)"
    by (simp add: eval_defs srv0_def sess0_def)
  have h5: "lastExtend cfg0 ''s'' [Poll 100000 ''s'' (Some ''receiver'') 0] srv0 = None"
    by simp
  have h6: "map_of (sessions srv0) ''s'' = Some sess0" by (simp add: srv0_def)
  show ?thesis
    using h1 h2 h3 h4 h5 h6
      expiresAt_from_last_extension [OF h1]
      expiresAt_from_last_extension [OF h4]
    by simp
qed

text \<open>
  C4, as the code has it. \<^verbatim>\<open>cleanupSession\<close> removes the record from the store first and
  deletes the files afterwards. On each of the three paths that destroy a session (the
  expiry found by a poll, the background task, the stale-receiver rejection of an upload),
  when the call hands control back the record is gone, the \<^verbatim>\<open>unlink\<close> of the first path of
  imagePaths is issued and the files of the other paths are as they were. The loop then
  takes one path at a time, while other steps are taken in between. It can always go through
  to its end, whatever failures its calls meet. In any run at the end of which the loop has
  finished, the calls carried out for it are those on the paths of imagePaths, in order; and
  every path whose call met no failure other than \<^verbatim>\<open>ENOENT\<close> names no file at the end of
  the run, whether the file was still there or not, unless an upload of the run wrote it.
\<close>

theorem cleanup_record_first_then_files:
  assumes "map_of (sessions s) sessionId = Some session"
  shows "destroyed sessionId session s (cleanupSession sessionId s)
    \<and> (expiresAt session < now \<and> (clientType = Some ''receiver'' \<or> clientType = Some ''sender'') \<longrightarrow>
           destroyed sessionId session s (snd (pollStatus cfg now sessionId clientType count s)))
    \<and> (expiresAt session < now \<longrightarrow> destroyed sessionId session s (runExpiredSessionCleanup now s))
    \<and> (sessionId \<noteq> [] \<and> status session = connected
           \<and> now > receiverLastSeen session + SESSION_TIMEOUT_MS cfg \<longrightarrow>
           destroyed sessionId session s (snd (uploadBegin cfg now sessionId s)))
    \<and> (\<forall>s' n imagePath rest faults.
           n < length (deferred s') \<and> deferred s' ! n = CleanupFiles Issued imagePath rest
           \<and> length faults = Suc (length rest) \<longrightarrow>
           deferred (run cfg (cleanupSteps n faults) s') ! n = Finished)
    \<and> (\<forall>s' n imagePath rest ops.
           n < length (deferred s') \<and> deferred s' ! n = CleanupFiles Issued imagePath rest
           \<and> deferred (run cfg ops s') ! n = Finished \<longrightarrow>
           map fst (attempts cfg n ops s') = imagePath # rest
           \<and> (\<forall>q. (q, False) \<in> set (attempts cfg n ops s') \<and> (\<forall>x \<in> set ops. \<not> writes cfg q x) \<longrightarrow>
                  map_of (files (run cfg ops s')) q = None))"
proof -
  have d1: "destroyed sessionId session s (cleanupSession sessionId s)"
    using assms by (rule cleanupSession_destroyed)
  have d2: "expiresAt session < now \<and> (clientType = Some ''receiver'' \<or> clientType = Some ''sender'') \<longrightarrow>
           destroyed sessionId session s (snd (pollStatus cfg now sessionId clientType count s))"
    using assms by (blast intro: poll_expired_destroyed)
  have d3: "expiresAt session < now \<longrightarrow> destroyed sessionId session s (runExpiredSessionCleanup now s)"
    using assms by (blast intro: sweep_destroyed)
  have d4: "sessionId \<noteq> [] \<and> status session = connected
           \<and> now > receiverLastSeen session + SESSION_TIMEOUT_MS cfg \<longrightarrow>
           destroyed sessionId session s (snd (uploadBegin cfg now sessionId s))"
    using assms by (blast intro: begin_stale_destroyed)
  have through: "\<forall>s' n imagePath rest faults.
           n < length (deferred s') \<and> deferred s' ! n = CleanupFiles Issued imagePath rest
           \<and> length faults = Suc (length rest) \<longrightarrow>
           deferred (run cfg (cleanupSteps n faults) s') ! n = Finished"
    using cleanup_loop by blast
  have calls: "\<forall>s' n imagePath rest ops.
           n < length (deferred s') \<and> deferred s' ! n = CleanupFiles Issued imagePath rest
           \<and> deferred (run cfg ops s') ! n = Finished \<longrightarrow>
           map fst (attempts cfg n ops s') = imagePath # rest"
    using loop_finished by blast
  have absent: "\<forall>s' n ops q. (q, False) \<in> set (attempts cfg n ops s') \<and> (\<forall>x \<in> set ops. \<not> writes cfg q x) \<longrightarrow>
                  map_of (files (run cfg ops s')) q = None"
    using attempts_absent by blast
  show ?thesis using d1 d2 d3 d4 through calls absent by blast
qed

theorem cleanup_ordering_counterexample:
  "map_of (sessions srv4) ''s'' = Some sess4
   \<and> map_of (imagePaths sess4) ''b'' = Some ''up/b''
   \<and> expiresAt sess4 < 200000
   \<and> runExpiredSessionCleanup 200000 srv4 = srv4_swept
   \<and> map_of (sessions srv4_swept) ''s'' = None
   \<and> map_of (files srv4_swept) ''up/b'' = Some [4, 5]
   \<and> map_of (sessions (fsPerform 0 False srv4_swept)) ''s'' = None
   \<and> map_of (files (fsPerform 0 False srv4_swept)) ''up/b'' = Some [4, 5]"
  by (simp add: eval_defs srv4_def sess4_def srv4_swept_def)

theorem cleanup_record_first_then_files_witness:
  "map_of (sessions srv4) ''s'' = Some sess4
   \<and> expiresAt sess4 < 200000 \<and> ''s'' \<noteq> [] \<and> status sess4 = connected
   \<and> 200000 > receiverLastSeen sess4 + SESSION_TIMEOUT_MS cfg0
   \<and> destroyed ''s'' sess4 srv4 (cleanupSession ''s'' srv4)
   \<and> destroyed ''s'' sess4 srv4 (snd (pollStatus cfg0 200000 ''s'' (Some ''receiver'') 0 srv4))
   \<and> destroyed ''s'' sess4 srv4 (runExpiredSessionCleanup 200000 srv4)
   \<and> destroyed ''s'' sess4 srv4 (snd (uploadBegin cfg0 200000 ''s'' srv4))
   \<and> runExpiredSessionCleanup 200000 srv4 = srv4_swept
   \<and> 0 < length (deferred srv4_swept)
   \<and> deferred srv4_swept ! 0 = CleanupFiles Issued ''up/a'' [''up/b'']
   \<and> length [False, False] = Suc (length [''up/b''])
   \<and> deferred (run cfg0 (cleanupSteps 0 [False, False]) srv4_swept) ! 0 = Finished
   \<and> deferred (run cfg0 ops4 srv4_swept) ! 0 = Finished
   \<and> attempts cfg0 0 ops4 srv4_swept = [(''up/a'', False), (''up/b'', True)]
   \<and> \<not> (\<exists>x \<in> set ops4. writes cfg0 ''up/a'' x)
   \<and> map_of (files (run cfg0 ops4 srv4_swept)) ''up/a'' = None
   \<and> map_of (files (run cfg0 ops4 srv4_swept)) ''up/b'' = Some [4, 5]"
proof -
  have h1: "map_of (sessions srv4) ''s'' = Some sess4" by (simp add: srv4_def)
  have h2: "expiresAt sess4 < 200000" by (simp add: sess4_def)
  have h3: "status sess4 = connected" by (simp add: sess4_def)
  have h4: "200000 > receiverLastSeen sess4 + SESSION_TIMEOUT_MS cfg0"
    by (simp add: sess4_def cfg0_def)
  have h5: "runExpiredSessionCleanup 200000 srv4 = srv4_swept"
    by (simp add: eval_defs srv4_def sess4_def srv4_swept_def)
  have h6: "0 < length (deferred srv4_swept)"
    "deferred srv4_swept ! 0 = CleanupFiles Issued ''up/a'' [''up/b'']"
    by (simp_all add: srv4_swept_def)
  have h7: "deferred (run cfg0 ops4 srv4_swept) ! 0 = Finished"
    by (simp add: eval_defs ops4_def srv4_swept_def)
  have h8: "attempts cfg0 0 ops4 srv4_swept = [(''up/a'', False), (''up/b'', True)]"
    by (simp add: eval_defs ops4_def srv4_swept_def)
  have h9: "\<forall>x \<in> set ops4. \<not> writes cfg0 ''up/a'' x" by (simp add: ops4_def)
  have h10: "map_of (files (run cfg0 ops4 srv4_swept)) ''up/b'' = Some [4, 5]"
    by (simp add: eval_defs ops4_def srv4_swept_def)
  note t = cleanup_record_first_then_files
    [OF h1, where now = 200000 and clientType = "Some ''receiver''" and cfg = cfg0 and count = 0]
  have d: "destroyed ''s'' sess4 srv4 (cleanupSession ''s'' srv4)"
    "destroyed ''s'' sess4 srv4 (snd (pollStatus cfg0 200000 ''s'' (Some ''receiver'') 0 srv4))"
    "destroyed ''s'' sess4 srv4 (runExpiredSessionCleanup 200000 srv4)"
    "destroyed ''s'' sess4 srv4 (snd (uploadBegin cfg0 200000 ''s'' srv4))"
    using t h2 h3 h4 by simp_all
  have l: "deferred (run cfg0 (cleanupSteps 0 [False, False]) srv4_swept) ! 0 = Finished"
    using t h6 by (metis length_Cons list.size(3))
  have a: "map_of (files (run cfg0 ops4 srv4_swept)) ''up/a'' = None"
    using t h6 h7 h8 h9 by (metis list.set_intros(1))
  show ?thesis
    using h1 h2 h3 h4 h5 h6 h7 h8 h9 h10 d l a by simp
qed

text \<open>
  C5, as the code has it. An upload on a session in status connected whose receiver was last
  seen more than SESSION_TIMEOUT_MS before now is rejected with 400 and the session is removed
  from the store. An upload on a session in any other status, also receiver_disconnected as
  a sender poll has set it, is rejected with 400 by the status check, and the store is left as
  it was.
\<close>

theorem upload_stale_receiver:
  assumes "map_of (sessions s) sessionId = Some session" and "sessionId \<noteq> []"
  shows "(status session = connected \<and> now > receiverLastSeen session + SESSION_TIMEOUT_MS cfg \<longrightarrow>
            fst (uploadImage cfg now uuid sessionId data s) = (400, Failure ''Receiver partner disconnected.'')
            \<and> map_of (sessions (snd (uploadImage cfg now uuid sessionId data s))) sessionId = None)
       \<and> (status session \<noteq> connected \<longrightarrow>
            fst (fst (uploadImage cfg now uuid sessionId data s)) = 400
            \<and> snd (uploadImage cfg now uuid sessionId data s) = s)"
proof (intro conjI impI)
  assume a: "status session = connected \<and> now > receiverLastSeen session + SESSION_TIMEOUT_MS cfg"
  then have eq: "uploadImage cfg now uuid sessionId data s =
           ((400, Failure ''Receiver partner disconnected.''),
            cleanupSession sessionId
              (s\<lparr>sessions := AList.update sessionId
                   (session\<lparr>status := receiver_disconnected\<rparr>) (sessions s)\<rparr>))"
    using assms by (simp add: upload_stale)
  show "fst (uploadImage cfg now uuid sessionId data s) = (400, Failure ''Receiver partner disconnected.'')"
    by (simp add: eq)
  show "map_of (sessions (snd (uploadImage cfg now uuid sessionId data s))) sessionId = None"
    by (simp add: eq cleanupSession_lookup)
next
  assume "status session \<noteq> connected"
  with assms show "fst (fst (uploadImage cfg now uuid sessionId data s)) = 400"
    by (rule upload_not_connected(1))
next
  assume "status session \<noteq> connected"
  with assms show "snd (uploadImage cfg now uuid sessionId data s) = s"
    by (rule upload_not_connected(2))
qed

theorem upload_stale_receiver_counterexample:
  "status sess2 = connected
   \<and> 9000 > receiverLastSeen sess2 + CLIENT_TIMEOUT_MS cfg0
   \<and> map_of (sessions srv2) ''s'' = Some sess2
   \<and> map_of (sessions srv2_polled) ''s''
        = Some (sess2\<lparr>senderLastSeen := 9000, status := receiver_disconnected\<rparr>)
   \<and> fst (fst (uploadImage cfg0 9100 ''u1'' ''s'' (UploadFile (Some ''cat.jpg'') [7]) srv2_polled)) = 400
   \<and> map_of (sessions (snd (uploadImage cfg0 9100 ''u1'' ''s'' (UploadFile (Some ''cat.jpg'') [7]) srv2_polled))) ''s''
        = Some (sess2\<lparr>senderLastSeen := 9000, status := receiver_disconnected\<rparr>)
   \<and> fst (uploadImage cfg0 9100 ''u1'' ''s'' (UploadFile (Some ''cat.jpg'') [7]) srv2)
        = (200, UploadOk ''cat.jpg'')"
  by (simp add: eval_defs srv2_polled_def srv2_def sess2_def)

theorem upload_stale_receiver_witness:
  "map_of (sessions srv0) ''s'' = Some sess0 \<and> ''s'' \<noteq> [] \<and> status sess0 = connected
   \<and> 200000 > receiverLastSeen sess0 + SESSION_TIMEOUT_MS cfg0
   \<and> fst (uploadImage cfg0 200000 ''u1'' ''s'' NoFile srv0) = (400, Failure ''Receiver partner disconnected.'')
   \<and> map_of (sessions (snd (uploadImage cfg0 200000 ''u1'' ''s'' NoFile srv0))) ''s'' = None
   \<and> map_of (sessions srv1) ''s'' = Some sess1 \<and> status sess1 \<noteq> connected
   \<and> fst (fst (uploadImage cfg0 200000 ''u1'' ''s'' NoFile srv1)) = 400
   \<and> snd (uploadImage cfg0 200000 ''u1'' ''s'' NoFile srv1) = srv1"
proof -
  have h1: "map_of (sessions srv0) ''s'' = Some sess0" by (simp add: srv0_def)
  have h2: "''s'' \<noteq> []" by simp
  have h3: "status sess0 = connected" by (simp add: sess0_def)
  have h4: "200000 > receiverLastSeen sess0 + SESSION_TIMEOUT_MS cfg0"
    by (simp add: sess0_def cfg0_def)
  have k1: "map_of (sessions srv1) ''s'' = Some sess1" by (simp add: srv1_def)
  have k3: "status sess1 \<noteq> connected" by (simp add: sess1_def)
  show ?thesis
    using h1 h3 h4 k1 k3
      upload_stale_receiver [OF h1 h2, where now = 200000 and cfg = cfg0 and uuid = "''u1''" and data = NoFile]
      upload_stale_receiver [OF k1 h2, where now = 200000 and cfg = cfg0 and uuid = "''u1''" and data = NoFile]
    by simp
qed

text \<open>
  C6, as the code has it. Only the connect handler writes the status connected. From a
  session marked sender_disconnected or receiver_disconnected, no run of session requests,
  polls of either side, uploads, image fetches, sweeps and deferred clean-ups, and connects
  on other sessions, ends with that session in status connected.
\<close>

theorem connected_only_by_connect:
  assumes "map_of (sessions s) sessionId = Some session"
    and "status session = sender_disconnected \<or> status session = receiver_disconnected"
    and "\<forall>x \<in> set ops. \<not> is_connect sessionId x"
  shows "\<forall>session'. map_of (sessions (run cfg ops s)) sessionId = Some session'
           \<longrightarrow> status session' \<noteq> connected"
proof -
  have "not_connected sessionId s"
    using assms(1,2) by (auto simp add: not_connected_def)
  then have "not_connected sessionId (run cfg ops s)"
    using assms(3) by (rule run_not_connected)
  then show ?thesis by (simp add: not_connected_def split: option.splits)
qed

theorem staleness_monotonic_counterexample:
  "map_of (sessions srv2) ''s'' = Some sess2 \<and> status sess2 = connected
   \<and> 9000 > receiverLastSeen sess2 + CLIENT_TIMEOUT_MS cfg0
   \<and> map_of (sessions (run cfg0 [Poll 9000 ''s'' (Some ''sender'') 0] srv2)) ''s''
        = Some (sess2\<lparr>senderLastSeen := 9000, status := receiver_disconnected\<rparr>)
   \<and> map_of (sessions (run cfg0 [Poll 9000 ''s'' (Some ''sender'') 0, Connect 9100 ''s''] srv2)) ''s''
        = Some (sess2\<lparr>senderLastSeen := 9100, status := connected, expiresAt := 129100\<rparr>)"
  by (simp add: srv2_def sess2_def cfg0_def pollStatus_def touch_def connectSender_def
      Let_def calculateExpiresAt_def)

theorem connected_only_by_connect_witness:
  "map_of (sessions srv1) ''s'' = Some sess1
   \<and> (status sess1 = sender_disconnected \<or> status sess1 = receiver_disconnected)
   \<and> \<not> (\<exists>x \<in> set ops1. is_connect ''s'' x)
   \<and> map_of (sessions (run cfg0 ops1 srv1)) ''s''
        = Some (sess1\<lparr>receiverLastSeen := 9000, senderLastSeen := 9100, pendingImageIds := []\<rparr>)
   \<and> status (sess1\<lparr>receiverLastSeen := 9000, senderLastSeen := 9100, pendingImageIds := []\<rparr>) \<noteq> connected"
proof -
  have h1: "map_of (sessions srv1) ''s'' = Some sess1" by (simp add: srv1_def)
  have h2: "status sess1 = sender_disconnected \<or> status sess1 = receiver_disconnected"
    by (simp add: sess1_def)
  have h3: "\<forall>x \<in> set ops1. \<not> is_connect ''s'' x" by (simp add: ops1_def)
  have h4: "map_of (sessions (run cfg0 ops1 srv1)) ''s''
        = Some (sess1\<lparr>receiverLastSeen := 9000, senderLastSeen := 9100, pendingImageIds := []\<rparr>)"
    by (simp add: eval_defs ops1_def srv1_def sess1_def)
  show ?thesis
    using h1 h2 h3 h4 connected_only_by_connect [OF h1 h2 h3, of cfg0]
    by simp
qed



text \<open>
  C8. A connect on a session that is connected and has a sender (senderLastSeen > 0)
  is answered 409 and the whole server state, so every field of the session, stays as it was.
\<close>

theorem connect_conflict_unchanged:
  assumes "map_of (sessions s) sessionId = Some session"
    and "status session = connected"
    and "senderLastSeen session > 0"
  shows "connectSender cfg now sessionId s
           = ((409, Failure ''Session already has an active sender.''), s)"
  using assms by (simp add: connectSender_def)

theorem connect_conflict_unchanged_witness:
  "map_of (sessions srv0) ''s'' = Some sess0 \<and> status sess0 = connected \<and> senderLastSeen sess0 > 0
   \<and> connectSender cfg0 5000 ''s'' srv0
       = ((409, Failure ''Session already has an active sender.''), srv0)"
proof -
  have h1: "map_of (sessions srv0) ''s'' = Some sess0" by (simp add: srv0_def)
  have h2: "status sess0 = connected" by (simp add: sess0_def)
  have h3: "senderLastSeen sess0 > 0" by (simp add: sess0_def)
  show ?thesis using h1 h2 h3 connect_conflict_unchanged [OF h1 h2 h3, of cfg0 5000] by simp
qed

text \<open>
  C9. A connect on a session that is in the store and is not at once connected and with a
  sender seen (senderLastSeen > 0) succeeds, whatever its status and however long ago the
  receiver was seen: the reply is 200, the status becomes connected, senderLastSeen becomes
  now and expiresAt becomes now + SESSION_TIMEOUT_MS; no other field changes.
\<close>

theorem connect_succeeds_unless_live_sender:
  assumes "map_of (sessions s) sessionId = Some session"
    and "\<not> (status session = connected \<and> senderLastSeen session > 0)"
  shows "connectSender cfg now sessionId s =
           ((200, SenderConnected sessionId (SESSION_TIMEOUT_MS cfg) POLLING_INTERVAL_MS),
            s\<lparr>sessions := AList.update sessionId
                 (session\<lparr>status := connected, senderLastSeen := now,
                          expiresAt := now + SESSION_TIMEOUT_MS cfg\<rparr>) (sessions s)\<rparr>)
         \<and> map_of (sessions (snd (connectSender cfg now sessionId s))) sessionId =
             Some (session\<lparr>status := connected, senderLastSeen := now,
                           expiresAt := now + SESSION_TIMEOUT_MS cfg\<rparr>)"
  using assms by (auto simp add: connectSender_def calculateExpiresAt_def update_conv')

theorem connect_succeeds_unless_live_sender_witness:
  "map_of (sessions srv1) ''s'' = Some sess1
   \<and> \<not> (status sess1 = connected \<and> senderLastSeen sess1 > 0)
   \<and> status sess1 = receiver_disconnected
   \<and> fst (connectSender cfg0 9500 ''s'' srv1) = (200, SenderConnected ''s'' 120000 2000)
   \<and> map_of (sessions (snd (connectSender cfg0 9500 ''s'' srv1))) ''s'' =
        Some (sess1\<lparr>status := connected, senderLastSeen := 9500, expiresAt := 129500\<rparr>)"
proof -
  have h1: "map_of (sessions srv1) ''s'' = Some sess1" by (simp add: srv1_def)
  have h2: "\<not> (status sess1 = connected \<and> senderLastSeen sess1 > 0)" by (simp add: sess1_def)
  have h3: "status sess1 = receiver_disconnected" by (simp add: sess1_def)
  show ?thesis
    using h1 h2 h3 connect_succeeds_unless_live_sender [OF h1 h2, of cfg0 9500]
    by (simp add: cfg0_def POLLING_INTERVAL_MS_def update_conv')
qed

text \<open>
  C10. A receiver poll on a session that is in the store and whose deadline has not passed
  (not expiresAt < now) is answered 200 with newImageIds equal to the whole pending queue,
  and leaves the queue empty; the status of the session plays no part.
\<close>

theorem receiver_poll_drains_any_status:
  assumes "map_of (sessions s) sessionId = Some session"
    and "\<not> expiresAt session < now"
  shows "\<exists>payload s'.
           pollStatus cfg now sessionId (Some ''receiver'') count s = ((200, StatusPayload payload), s')
           \<and> newImageIds payload = pendingImageIds session
           \<and> (\<exists>session'. map_of (sessions s') sessionId = Some session'
                  \<and> pendingImageIds session' = [])"
  using assms
  by (auto simp add: pollStatus_def Let_def touch_expiresAt touch_pendingImageIds update_conv')

theorem receiver_poll_drains_any_status_witness:
  "map_of (sessions srv1) ''s'' = Some sess1 \<and> \<not> expiresAt sess1 < 9500
   \<and> status sess1 = receiver_disconnected
   \<and> (\<exists>payload s'.
           pollStatus cfg0 9500 ''s'' (Some ''receiver'') 7 srv1 = ((200, StatusPayload payload), s')
           \<and> newImageIds payload = [''a'', ''b'']
           \<and> (\<exists>session'. map_of (sessions s') ''s'' = Some session'
                  \<and> pendingImageIds session' = []))"
proof -
  have h1: "map_of (sessions srv1) ''s'' = Some sess1" by (simp add: srv1_def)
  have h2: "\<not> expiresAt sess1 < 9500" by (simp add: sess1_def)
  have h3: "pendingImageIds sess1 = [''a'', ''b'']" by (simp add: sess1_def)
  have h4: "status sess1 = receiver_disconnected" by (simp add: sess1_def)
  show ?thesis
    using h1 h2 h4 receiver_poll_drains_any_status [OF h1 h2, of cfg0 7] unfolding h3
    by simp
qed

end
